theory Spec2Isabelle
  imports Main "HOL-Library.Word"
begin

unbundle bit_operations_syntax

section \<open>JavaScript values and errors\<close>

text \<open>
  The repository is JavaScript on Node.js. Numbers are modelled as \<open>int\<close> (only integral
  Numbers occur in the archive code), BigInts as \<open>int\<close> under a separate constructor,
  strings as their UTF-8 byte sequence (\<open>string\<close>), a \<open>Buffer\<close> as a list of bytes.
  An exception thrown by the runtime is a value \<open>Inl e\<close> of the result type.
\<close>

datatype error = TypeError | RangeError

type_synonym byte = "8 word"

section \<open>Display names (nip.mjs and the older writer)\<close>

definition is_sep :: "char \<Rightarrow> bool" where
  "is_sep c = (c = CHR ''/'' \<or> c = CHR 0x5C)"

text \<open>\<open>getFileNameFromPath\<close>: the loop over the characters, \<open>fileName\<close> is the accumulator.\<close>

fun getFileNameFromPath_loop :: "string \<Rightarrow> string \<Rightarrow> string" where
  "getFileNameFromPath_loop fileName [] = fileName"
| "getFileNameFromPath_loop fileName (c # cs) =
     (if c = CHR ''/'' \<or> c = CHR 0x5C then getFileNameFromPath_loop [] cs
      else getFileNameFromPath_loop (fileName @ [c]) cs)"

definition getFileNameFromPath :: "string \<Rightarrow> string" where
  "getFileNameFromPath filePath = getFileNameFromPath_loop [] filePath"

text \<open>
  \<open>getFileName\<close> runs the regular expression \<open>([^/]*?)$\<close> on the path with every
  backslash replaced by a slash. \<open>regex_at\<close> is the backtracking match from one start
  position: the lazy star first tries to stop (then \<open>$\<close> must hold, which it does only at
  the end of the input) and otherwise consumes one character that is not a slash.
  \<open>regex_exec\<close> tries the start positions from left to right, as \<open>RegExp.exec\<close> does,
  and returns capture group 1 of the first match, \<open>None\<close> when there is no match.
\<close>

fun regex_at :: "string \<Rightarrow> string \<Rightarrow> string option" where
  "regex_at cap [] = Some cap"
| "regex_at cap (c # cs) = (if c = CHR ''/'' then None else regex_at (cap @ [c]) cs)"

fun regex_exec :: "string \<Rightarrow> string option" where
  "regex_exec [] = regex_at [] []"
| "regex_exec (c # cs) =
     (case regex_at [] (c # cs) of Some cap \<Rightarrow> Some cap | None \<Rightarrow> regex_exec cs)"

definition replaceAll_backslash :: "string \<Rightarrow> string" where
  "replaceAll_backslash s = map (\<lambda>c. if c = CHR 0x5C then CHR ''/'' else c) s"

text \<open>The result is a string, or \<open>None\<close> for JavaScript's \<open>null\<close>.\<close>

definition getFileName :: "string \<Rightarrow> error + string option" where
  "getFileName filePath =
     (case regex_exec (replaceAll_backslash filePath) of
        None \<Rightarrow> Inl TypeError
      | Some g \<Rightarrow> if g \<noteq> [] then Inr (Some g) else Inr None)"

text \<open>
  The specification's words: the display name is the last segment of the path, where both
  \<open>/\<close> and \<open>\\<close> separate segments.
\<close>

definition spec_lastSegment :: "string \<Rightarrow> string" where
  "spec_lastSegment p = rev (takeWhile (\<lambda>c. \<not> is_sep c) (rev p))"


section \<open>CRC-32 (crc.mjs)\<close>

text \<open>
  JavaScript's bitwise operators work on 32 bits: \<open>^\<close> and \<open>&\<close> convert both operands
  to 32-bit words and give a \<^emph>\<open>signed\<close> result, \<open>>>>\<close> converts to an unsigned word,
  shifts and gives an unsigned result.
\<close>

definition js_xor :: "int \<Rightarrow> int \<Rightarrow> int" where
  "js_xor a b = sint ((word_of_int a :: 32 word) XOR word_of_int b)"

definition js_and :: "int \<Rightarrow> int \<Rightarrow> int" where
  "js_and a b = sint ((word_of_int a :: 32 word) AND word_of_int b)"

definition js_ushr :: "int \<Rightarrow> nat \<Rightarrow> int" where
  "js_ushr a n = uint (drop_bit (n mod 32) (word_of_int a :: 32 word))"

text \<open>One round of the inner loop that builds a table entry.\<close>

definition crc_round :: "int \<Rightarrow> int" where
  "crc_round crc =
     (if js_and crc 1 \<noteq> 0 then js_ushr (js_xor 0xedb88320 (js_ushr crc 1)) 0
      else js_ushr crc 1)"

definition crc_entry :: "nat \<Rightarrow> int" where
  "crc_entry i = (crc_round ^^ 8) (int i)"

definition crcTable :: "int list" where
  "crcTable = map crc_entry [0..<256]"

definition crc_byte :: "byte \<Rightarrow> int \<Rightarrow> int" where
  "crc_byte b crc =
     (let lookupIndex = js_and (js_xor crc (uint b)) 0xff
      in js_xor (js_ushr crc 8) (crcTable ! nat lookupIndex))"

definition updateCRC :: "byte list \<Rightarrow> int \<Rightarrow> int" where
  "updateCRC chunk crc = fold crc_byte chunk crc"

text \<open>
  The callers (\<open>addFileToZip\<close>, \<open>crcFile\<close>) start from \<open>0xffffffff\<close>, feed the chunks in
  order and finish with \<open>(crc ^ 0xffffffff) >>> 0\<close>.
\<close>

definition crc_finish :: "int \<Rightarrow> int" where
  "crc_finish crc = js_ushr (js_xor crc 0xffffffff) 0"

definition crc_of_chunks :: "byte list list \<Rightarrow> int" where
  "crc_of_chunks chunks = crc_finish (fold updateCRC chunks 0xffffffff)"

definition ascii_bytes :: "string \<Rightarrow> byte list" where
  "ascii_bytes s = map (\<lambda>c. of_char c) s"


section \<open>Buffers (Node.js \<open>Buffer\<close>)\<close>

text \<open>
  A Number or a BigInt. \<open>undefined\<close> and \<open>null\<close> are \<open>None\<close> of \<open>jsval option\<close>:
  the code tells them apart nowhere (\<open>??\<close> and the test in \<open>addEntry\<close> treat both alike).
\<close>

datatype jsval = Num int | Big int

text \<open>Little-endian bytes of a value, and the value of little-endian bytes.\<close>

fun le_bytes :: "nat \<Rightarrow> int \<Rightarrow> byte list" where
  "le_bytes 0 v = []"
| "le_bytes (Suc n) v = word_of_int v # le_bytes n (v div 256)"

fun le_val :: "byte list \<Rightarrow> int" where
  "le_val [] = 0"
| "le_val (b # bs) = uint b + 256 * le_val bs"

definition Buffer_alloc :: "nat \<Rightarrow> byte list" where
  "Buffer_alloc n = replicate n 0"

text \<open>Overwriting \<open>bs\<close> into \<open>buf\<close> at \<open>off\<close>; the callers check the bounds first.\<close>

definition put_bytes :: "nat \<Rightarrow> byte list \<Rightarrow> byte list \<Rightarrow> byte list" where
  "put_bytes off bs buf = take off buf @ bs @ drop (off + length bs) buf"

text \<open>
  \<open>buf.writeUInt16LE(value, offset)\<close> and \<open>buf.writeUInt32LE\<close> (\<open>w\<close> is 2 or 4): the value
  is converted with unary plus, which throws a TypeError on a BigInt and turns \<open>undefined\<close>
  into NaN; NaN passes the range check and is stored as zero bytes. A Number outside
  \<open>0 .. 256^w - 1\<close> or a write past the end of the buffer is a RangeError. The result is
  the buffer and the offset after the bytes written.
\<close>

definition writeUIntLE :: "nat \<Rightarrow> jsval option \<Rightarrow> nat \<Rightarrow> byte list \<Rightarrow> error + (byte list \<times> nat)" where
  "writeUIntLE w value offset buf =
     (case value of
        Some (Big v) \<Rightarrow> Inl TypeError
      | Some (Num v) \<Rightarrow>
          if v < 0 \<or> v \<ge> 256 ^ w then Inl RangeError
          else if offset + w > length buf then Inl RangeError
          else Inr (put_bytes offset (le_bytes w v) buf, offset + w)
      | None \<Rightarrow>
          if offset + w > length buf then Inl RangeError
          else Inr (put_bytes offset (le_bytes w 0) buf, offset + w))"

text \<open>
  \<open>buf.writeBigUInt64LE(value, offset)\<close>: the range check and the bounds check come
  first; then the value is split with BigInt arithmetic, which throws a TypeError on a
  Number and on \<open>undefined\<close>.
\<close>

definition writeBigUInt64LE :: "jsval option \<Rightarrow> nat \<Rightarrow> byte list \<Rightarrow> error + (byte list \<times> nat)" where
  "writeBigUInt64LE value offset buf =
     (case value of
        Some (Big v) \<Rightarrow>
          if v < 0 \<or> v \<ge> 256 ^ 8 then Inl RangeError
          else if offset + 8 > length buf then Inl RangeError
          else Inr (put_bytes offset (le_bytes 8 v) buf, offset + 8)
      | Some (Num v) \<Rightarrow>
          if v < 0 \<or> v \<ge> 256 ^ 8 then Inl RangeError
          else if offset + 8 > length buf then Inl RangeError
          else Inl TypeError
      | None \<Rightarrow>
          if offset + 8 > length buf then Inl RangeError else Inl TypeError)"

text \<open>The reads: a read past the end of the buffer is a RangeError.\<close>

definition readUIntLE :: "nat \<Rightarrow> byte list \<Rightarrow> nat \<Rightarrow> error + jsval" where
  "readUIntLE w buf offset =
     (if offset + w > length buf then Inl RangeError
      else Inr (Num (le_val (take w (drop offset buf)))))"

definition readBigUInt64LE :: "byte list \<Rightarrow> nat \<Rightarrow> error + jsval" where
  "readBigUInt64LE buf offset =
     (if offset + 8 > length buf then Inl RangeError
      else Inr (Big (le_val (take 8 (drop offset buf)))))"

section \<open>Binary Record Codec (serialise.mjs)\<close>

text \<open>\<open>Types\<close>, \<open>Defaults\<close> and \<open>TypeSizes\<close>.\<close>

datatype ftype = u16 | u32 | u64

fun Defaults :: "ftype \<Rightarrow> jsval" where
  "Defaults u16 = Num 0"
| "Defaults u32 = Num 0"
| "Defaults u64 = Big 0"

fun TypeSizes :: "ftype \<Rightarrow> nat" where
  "TypeSizes u16 = 2"
| "TypeSizes u32 = 4"
| "TypeSizes u64 = 8"

text \<open>\<open>buf["write" + type](value, offset)\<close> and \<open>buf["read" + type](offset)\<close>.\<close>

fun buf_write :: "ftype \<Rightarrow> jsval option \<Rightarrow> nat \<Rightarrow> byte list \<Rightarrow> error + (byte list \<times> nat)" where
  "buf_write u16 value offset buf = writeUIntLE 2 value offset buf"
| "buf_write u32 value offset buf = writeUIntLE 4 value offset buf"
| "buf_write u64 value offset buf = writeBigUInt64LE value offset buf"

fun buf_read :: "ftype \<Rightarrow> byte list \<Rightarrow> nat \<Rightarrow> error + jsval" where
  "buf_read u16 buf offset = readUIntLE 2 buf offset"
| "buf_read u32 buf offset = readUIntLE 4 buf offset"
| "buf_read u64 buf offset = readBigUInt64LE buf offset"

text \<open>
  A record definition is the ordered list of \<open>[name, type, literal]\<close> entries; the literal
  may be missing. The data is an object, looked up by field name.
\<close>

type_synonym struct_def = "(string \<times> ftype \<times> jsval option) list"
type_synonym data = "string \<rightharpoonup> jsval"

text \<open>
  The definitions below follow the code for field names that are plain property keys.
  Three kinds of names are not plain, because JavaScript objects treat them specially:
  \<^item> the names of the members of \<open>Object.prototype\<close>: \<open>data[name]\<close> finds the inherited
    member, so \<open>??\<close> never falls back to the literal, and \<open>__proto__\<close> is not stored as a
    key at all;
  \<^item> the names of the members of a \<open>Struct\<close> (its two own properties and the methods and
    getters of the class): \<open>addEntry\<close> defines an own accessor of the field's name on the
    object, which replaces or shadows the member (a field \<open>size\<close> shadows the getter
    \<open>size\<close>, a field \<open>entryOrder\<close> replaces the array);
  \<^item> names made of decimal digits only: \<open>Object.entries\<close> and \<open>Object.values\<close> enumerate
    array-index keys first, in numeric order, whatever the order of insertion.
  For a plain name the object \<open>data\<close> and the object \<open>entries\<close> are maps from the names set
  on them, enumerated in insertion order, and the members of the \<open>Struct\<close> are those of the
  class. The theorems that hold for every record definition and depend on its field names
  have \<open>plain_names\<close> as a hypothesis.
\<close>

definition Object_prototype_names :: "string list" where
  "Object_prototype_names =
     [''constructor'', ''__defineGetter__'', ''__defineSetter__'', ''hasOwnProperty'',
      ''__lookupGetter__'', ''__lookupSetter__'', ''isPrototypeOf'', ''propertyIsEnumerable'',
      ''toString'', ''valueOf'', ''__proto__'', ''toLocaleString'']"

definition Struct_member_names :: "string list" where
  "Struct_member_names =
     [''entryOrder'', ''entries'', ''constructor'', ''addEntry'', ''writeToBuffer'',
      ''createBuffer'', ''readFromBuffer'', ''editEntry'', ''sizeFrom'', ''sizeUntil'',
      ''size'', ''numEntries'']"

definition digits_only :: "string \<Rightarrow> bool" where
  "digits_only name = (name \<noteq> [] \<and> list_all (\<lambda>c. c \<in> set ''0123456789'') name)"

definition plain_name :: "string \<Rightarrow> bool" where
  "plain_name name =
     (if name \<in> set Object_prototype_names then False
      else if name \<in> set Struct_member_names then False
      else if digits_only name then False
      else True)"

definition plain_names :: "struct_def \<Rightarrow> bool" where
  "plain_names def = list_all plain_name (map fst def)"

text \<open>\<open>data[name] ?? literal\<close>, for a plain name: the data's own keys.\<close>

definition valueToUse :: "data \<Rightarrow> string \<Rightarrow> jsval option \<Rightarrow> jsval option" where
  "valueToUse d name literal = (case d name of Some v \<Rightarrow> Some v | None \<Rightarrow> literal)"

text \<open>
  The class \<open>Struct\<close>: \<open>entryOrder\<close> is the array of names, \<open>entries\<close> the object from a
  name to its \<open>{type, value}\<close>, kept as an association list in the order in which the keys
  were first set, which is the order \<open>Object.entries\<close> and \<open>Object.values\<close> enumerate.
\<close>

record Struct =
  entryOrder :: "string list"
  entries :: "(string \<times> ftype \<times> jsval) list"

text \<open>
  \<open>addEntry\<close> fills in the default, appends the name, stores the entry and defines an
  accessor property of that name on the object. \<open>Object.defineProperty\<close> without
  \<open>configurable\<close> makes the property non-configurable, so defining it a second time with
  a new getter throws a TypeError: a name can be added only once. For a plain name the
  accessor is a new property of the object and nothing else changes. (Of the repository's
  field names only \<open>numEntries\<close> is not plain: its accessor shadows the getter \<open>numEntries\<close>
  of the class, which no method calls, so the first \<open>numEntries\<close> is added like a plain
  name and the second throws.)
\<close>

definition addEntry :: "Struct \<Rightarrow> string \<Rightarrow> ftype \<Rightarrow> jsval option \<Rightarrow> error + Struct" where
  "addEntry s name type value =
     (let value = (case value of None \<Rightarrow> Defaults type | Some v \<Rightarrow> v)
      in if name \<in> set (map fst (entries s)) then Inl TypeError
         else Inr (s\<lparr>entryOrder := entryOrder s @ [name],
                     entries := entries s @ [(name, type, value)]\<rparr>))"

text \<open>The constructor: \<open>definition.forEach\<close>.\<close>

fun Struct_forEach :: "struct_def \<Rightarrow> data \<Rightarrow> Struct \<Rightarrow> error + Struct" where
  "Struct_forEach [] d s = Inr s"
| "Struct_forEach ((name, type, literal) # rest) d s =
     (case addEntry s name type (valueToUse d name literal) of
        Inl e \<Rightarrow> Inl e
      | Inr s' \<Rightarrow> Struct_forEach rest d s')"

definition Struct_new :: "struct_def \<Rightarrow> data \<Rightarrow> error + Struct" where
  "Struct_new def d = Struct_forEach def d \<lparr>entryOrder = [], entries = []\<rparr>"

text \<open>The getter of a field, \<open>struct.name\<close>; \<open>None\<close> is \<open>undefined\<close>.\<close>

definition Struct_get :: "Struct \<Rightarrow> string \<Rightarrow> jsval option" where
  "Struct_get s name = map_option snd (map_of (entries s) name)"

text \<open>\<open>BigInt(value)\<close> on an integral Number or a BigInt.\<close>

fun BigInt :: "jsval \<Rightarrow> jsval" where
  "BigInt (Num v) = Big v"
| "BigInt (Big v) = Big v"

text \<open>\<open>writeToBuffer\<close>: the loop over \<open>entryOrder\<close>; the result is the buffer and \<open>bytesSerialised\<close>.\<close>

fun writeToBuffer_loop :: "Struct \<Rightarrow> string list \<Rightarrow> byte list \<Rightarrow> nat \<Rightarrow> error + (byte list \<times> nat)" where
  "writeToBuffer_loop s [] buf bytePos = Inr (buf, bytePos)"
| "writeToBuffer_loop s (entryName # rest) buf bytePos =
     (case map_of (entries s) entryName of
        None \<Rightarrow> Inl TypeError
      | Some (type, value) \<Rightarrow>
          (case buf_write type (Some (if type = u64 then BigInt value else value)) bytePos buf of
             Inl e \<Rightarrow> Inl e
           | Inr (buf', bytePos') \<Rightarrow> writeToBuffer_loop s rest buf' bytePos'))"

definition writeToBuffer :: "Struct \<Rightarrow> byte list \<Rightarrow> nat \<Rightarrow> error + (byte list \<times> nat)" where
  "writeToBuffer s buf offset =
     (case writeToBuffer_loop s (entryOrder s) buf offset of
        Inl e \<Rightarrow> Inl e
      | Inr (buf', bytePos) \<Rightarrow> Inr (buf', bytePos - offset))"

text \<open>
  The getter \<open>size\<close> of the class: the sum over \<open>Object.values(this.entries)\<close>. (A field
  named \<open>size\<close>, which is not plain, would shadow it.)
\<close>

definition Struct_size :: "Struct \<Rightarrow> nat" where
  "Struct_size s = sum_list (map (\<lambda>(name, type, value). TypeSizes type) (entries s))"

definition createBuffer :: "Struct \<Rightarrow> nat \<Rightarrow> error + (byte list \<times> nat)" where
  "createBuffer s extraSpace = writeToBuffer s (Buffer_alloc (Struct_size s + extraSpace)) 0"

text \<open>
  \<open>readFromBuffer\<close>: the loop over \<open>Object.entries(this.entries)\<close>, which stores each value
  read under its name; the result is the struct and the number of bytes read. For plain
  names \<open>Object.entries\<close> enumerates in insertion order, the order of the list.
\<close>

definition set_value :: "string \<Rightarrow> jsval \<Rightarrow> (string \<times> ftype \<times> jsval) list \<Rightarrow> (string \<times> ftype \<times> jsval) list" where
  "set_value name v es = map (\<lambda>(n, t, x). if n = name then (n, t, v) else (n, t, x)) es"

fun readFromBuffer_loop ::
  "(string \<times> ftype \<times> jsval) list \<Rightarrow> Struct \<Rightarrow> byte list \<Rightarrow> nat \<Rightarrow> error + (Struct \<times> nat)" where
  "readFromBuffer_loop [] s buffer bytePos = Inr (s, bytePos)"
| "readFromBuffer_loop ((name, type, old) # rest) s buffer bytePos =
     (case buf_read type buffer bytePos of
        Inl e \<Rightarrow> Inl e
      | Inr readValue \<Rightarrow>
          readFromBuffer_loop rest (s\<lparr>entries := set_value name readValue (entries s)\<rparr>)
            buffer (bytePos + TypeSizes type))"

definition readFromBuffer :: "Struct \<Rightarrow> byte list \<Rightarrow> nat \<Rightarrow> error + (Struct \<times> nat)" where
  "readFromBuffer s buffer offset =
     (case readFromBuffer_loop (entries s) s buffer offset of
        Inl e \<Rightarrow> Inl e
      | Inr (s', bytePos) \<Rightarrow> Inr (s', bytePos - offset))"

definition FromBuffer :: "struct_def \<Rightarrow> byte list \<Rightarrow> nat \<Rightarrow> error + Struct" where
  "FromBuffer def buffer offset =
     (case Struct_new def Map.empty of
        Inl e \<Rightarrow> Inl e
      | Inr struct \<Rightarrow>
          (case readFromBuffer struct buffer offset of
             Inl e \<Rightarrow> Inl e
           | Inr (struct', n) \<Rightarrow> Inr struct'))"

text \<open>\<open>entryOrder.indexOf(entryName)\<close>, \<open>None\<close> for \<open>-1\<close>.\<close>

fun indexOf_name :: "string list \<Rightarrow> string \<Rightarrow> nat option" where
  "indexOf_name [] name = None"
| "indexOf_name (x # xs) name =
     (if x = name then Some 0 else map_option Suc (indexOf_name xs name))"

text \<open>The size of the entry at position \<open>i\<close> of \<open>entryOrder\<close>.\<close>

definition sizeAt :: "Struct \<Rightarrow> nat \<Rightarrow> nat" where
  "sizeAt s i = (case map_of (entries s) (entryOrder s ! i) of
                   None \<Rightarrow> 0 | Some (type, value) \<Rightarrow> TypeSizes type)"

text \<open>
  \<open>sizeFrom\<close> and \<open>sizeUntil\<close> return a number, or \<open>null\<close> (\<open>None\<close>) for a name that is not
  in \<open>entryOrder\<close>. Neither has a \<open>throw\<close>; the result type has room for one all the same.
\<close>

definition sizeFrom :: "Struct \<Rightarrow> string \<Rightarrow> bool \<Rightarrow> error + nat option" where
  "sizeFrom s entryName inclusive =
     (case indexOf_name (entryOrder s) entryName of
        None \<Rightarrow> Inr None
      | Some index \<Rightarrow>
          (let index = (if \<not> inclusive then index + 1 else index)
           in Inr (Some (sum_list (map (sizeAt s) [index ..< length (entryOrder s)])))))"

definition sizeUntil :: "Struct \<Rightarrow> string \<Rightarrow> bool \<Rightarrow> error + nat option" where
  "sizeUntil s entryName inclusive =
     (case indexOf_name (entryOrder s) entryName of
        None \<Rightarrow> Inr None
      | Some index \<Rightarrow>
          (let index = (if \<not> inclusive then int index - 1 else int index)
           in Inr (Some (sum_list (map (sizeAt s) [0 ..< nat (index + 1)])))))"

text \<open>
  \<open>prepareStructs\<close> gives every definition its \<open>byteSize\<close>; \<open>createBufferForStruct\<close> reads
  that property, so its definitions are those that \<open>prepareStructs\<close> has prepared, as all of
  \<open>Structs\<close> are.
\<close>

definition byteSize :: "struct_def \<Rightarrow> nat" where
  "byteSize struct = sum_list (map (\<lambda>(name, type, literal). TypeSizes type) struct)"

text \<open>\<open>createBufferForStruct\<close>: the loop over the definition, then the function.\<close>

fun createBufferForStruct_loop ::
  "struct_def \<Rightarrow> data \<Rightarrow> byte list \<Rightarrow> nat \<Rightarrow> error + (byte list \<times> nat)" where
  "createBufferForStruct_loop [] d buffer bytePos = Inr (buffer, bytePos)"
| "createBufferForStruct_loop ((name, type, literal) # rest) d buffer bytePos =
     (case buf_write type (valueToUse d name literal) bytePos buffer of
        Inl e \<Rightarrow> Inl e
      | Inr (buffer', bytePos') \<Rightarrow> createBufferForStruct_loop rest d buffer' bytePos')"

definition createBufferForStruct ::
  "struct_def \<Rightarrow> data \<Rightarrow> nat \<Rightarrow> nat \<Rightarrow> error + (byte list \<times> nat)" where
  "createBufferForStruct struct d extraSpaceAfter extraSpaceBefore =
     createBufferForStruct_loop struct d
       (Buffer_alloc (extraSpaceBefore + byteSize struct + extraSpaceAfter)) extraSpaceBefore"

section \<open>Binary Record Codec: notions for the statements\<close>

text \<open>A value that a field of the type stores and gives back unchanged.\<close>

fun fits :: "ftype \<Rightarrow> jsval \<Rightarrow> bool" where
  "fits u16 (Num v) = (0 \<le> v \<and> v < 2 ^ 16)"
| "fits u32 (Num v) = (0 \<le> v \<and> v < 2 ^ 32)"
| "fits u64 (Big v) = (0 \<le> v \<and> v < 2 ^ 64)"
| "fits t v = False"

fun int_of :: "jsval \<Rightarrow> int" where
  "int_of (Num v) = v"
| "int_of (Big v) = v"

definition enc :: "ftype \<Rightarrow> jsval \<Rightarrow> byte list" where
  "enc t v = le_bytes (TypeSizes t) (int_of v)"

text \<open>The value a field starts with: the data's, else the literal, else the default.\<close>

definition initial_value :: "data \<Rightarrow> string \<times> ftype \<times> jsval option \<Rightarrow> jsval" where
  "initial_value d f =
     (case f of (name, type, literal) \<Rightarrow>
        (case valueToUse d name literal of None \<Rightarrow> Defaults type | Some v \<Rightarrow> v))"

definition initial_entries :: "struct_def \<Rightarrow> data \<Rightarrow> (string \<times> ftype \<times> jsval) list" where
  "initial_entries def d = map (\<lambda>f. (fst f, fst (snd f), initial_value d f)) def"

definition enc3 :: "string \<times> ftype \<times> jsval \<Rightarrow> byte list" where
  "enc3 e = enc (fst (snd e)) (snd (snd e))"

definition fits3 :: "string \<times> ftype \<times> jsval \<Rightarrow> bool" where
  "fits3 e = fits (fst (snd e)) (snd (snd e))"

text \<open>What \<open>createBufferForStruct\<close> can write for a field, and what a \<open>Struct\<close> can.\<close>

definition field_ok :: "data \<Rightarrow> string \<times> ftype \<times> jsval option \<Rightarrow> bool" where
  "field_ok d f =
     (case f of (name, type, literal) \<Rightarrow>
        (case valueToUse d name literal of None \<Rightarrow> True | Some v \<Rightarrow> fits type v))"

definition field_given :: "data \<Rightarrow> string \<times> ftype \<times> jsval option \<Rightarrow> bool" where
  "field_given d f =
     (case f of (name, type, literal) \<Rightarrow> type \<noteq> u64 \<or> valueToUse d name literal \<noteq> None)"

text \<open>Storing the values of \<open>new\<close>, in order, as the read loop does.\<close>

definition store_all :: "(string \<times> ftype \<times> jsval) list \<Rightarrow> (string \<times> ftype \<times> jsval) list
    \<Rightarrow> (string \<times> ftype \<times> jsval) list" where
  "store_all new es = fold (\<lambda>e. set_value (fst e) (snd (snd e))) new es"

section \<open>Constants and record layouts (constants.mjs)\<close>

definition Signatures_centralDirectoryHeader :: int where
  "Signatures_centralDirectoryHeader = 0x02014b50"

definition Signatures_localFileHeader :: int where
  "Signatures_localFileHeader = 0x04034b50"

definition Signatures_endOfCentralDirectory :: int where
  "Signatures_endOfCentralDirectory = 0x06054b50"

definition Signatures_zip64EndOfCentralDirectory :: int where
  "Signatures_zip64EndOfCentralDirectory = 0x06064b50"

definition Signatures_zip64EndOfCentralDirectoryLocator :: int where
  "Signatures_zip64EndOfCentralDirectoryLocator = 0x07064b50"

definition Signatures_dataDescriptor :: int where
  "Signatures_dataDescriptor = 0x08074b50"

definition CompressionMethods_store :: int where
  "CompressionMethods_store = 0"

definition CompressionMethods_deflate :: int where
  "CompressionMethods_deflate = 8"

text \<open>\<open>1 << 3\<close> and \<open>1 << 11\<close>.\<close>

definition Flags_Descriptor :: int where
  "Flags_Descriptor = 8"

definition Flags_UTF8 :: int where
  "Flags_UTF8 = 2048"

text \<open>The record layouts of \<open>Structs\<close>, in the order of the source.\<close>

definition Structs_zip64EndOfCentralDirectoryRecord :: struct_def where
  "Structs_zip64EndOfCentralDirectoryRecord =
     [(''signature'', u32, Some (Num Signatures_zip64EndOfCentralDirectory)),
      (''sizeOfCentralDirectoryRecord'', u64, None),
      (''versionMadeBy'', u16, Some (Num 45)),
      (''versionNeededToExtract'', u16, Some (Num 45)),
      (''diskNumber'', u32, Some (Num 0)),
      (''diskNumberWithinCentralDirectory'', u32, Some (Num 0)),
      (''numEntries'', u64, None),
      (''numEntries'', u64, None),
      (''centralDirectorySize'', u64, None),
      (''centralDirectoryStart'', u64, None)]"

definition Structs_endOfCentralDirectoryRecord :: struct_def where
  "Structs_endOfCentralDirectoryRecord =
     [(''signature'', u32, Some (Num Signatures_endOfCentralDirectory)),
      (''diskNumber'', u16, Some (Num 0)),
      (''diskNumberWithinCentralDirectory'', u16, Some (Num 0)),
      (''numEntries'', u16, None),
      (''numEntries'', u16, None),
      (''centralDirectorySize'', u32, None),
      (''centralDirectoryStart'', u32, None),
      (''zipFileCommentLength'', u16, None)]"

definition Structs_zip64EndOfCentralDirectoryLocator :: struct_def where
  "Structs_zip64EndOfCentralDirectoryLocator =
     [(''signature'', u32, Some (Num Signatures_zip64EndOfCentralDirectoryLocator)),
      (''numDisksBeforeStart'', u32, Some (Num 0)),
      (''relativeOffset'', u64, None),
      (''totalNumberOfDisks'', u32, Some (Num 1))]"

definition Structs_zip64DataDescriptor :: struct_def where
  "Structs_zip64DataDescriptor =
     [(''signature'', u32, Some (Num Signatures_dataDescriptor)),
      (''crc32'', u32, None),
      (''compressedSize'', u64, None),
      (''uncompressedSize'', u64, None)]"

text \<open>
  The specification's words for what a decode consumes: the sum of the widths of the
  distinct field names of a definition.
\<close>

definition spec_distinctSize :: "struct_def \<Rightarrow> nat" where
  "spec_distinctSize def =
     sum_list (map (\<lambda>name. case map_of def name of None \<Rightarrow> 0 | Some (type, literal) \<Rightarrow> TypeSizes type)
                   (remdups (map fst def)))"

section \<open>Archive Writer (nip.mjs)\<close>

text \<open>\<open>a | b\<close> on 32 bits, with a signed result.\<close>

definition js_or :: "int \<Rightarrow> int \<Rightarrow> int" where
  "js_or a b = sint ((word_of_int a :: 32 word) OR word_of_int b)"

text \<open>
  \<open>Buffer.from(string)\<close>: the UTF-8 bytes of the string, which is how strings are kept here.
\<close>

definition Buffer_from :: "string \<Rightarrow> byte list" where
  "Buffer_from s = map (\<lambda>c. of_char c) s"

text \<open>
  \<open>source.copy(target, targetStart)\<close> copies as much of the source as the target has room
  for; the result is the target and the number of bytes copied.
\<close>

definition Buffer_copy :: "byte list \<Rightarrow> byte list \<Rightarrow> nat \<Rightarrow> byte list \<times> nat" where
  "Buffer_copy source target targetStart =
     (let part = take (length target - targetStart) source
      in (put_bytes targetStart part target, length part))"

text \<open>The object that \<open>createFileInfoObject\<close> returns.\<close>

record fileInfo =
  versionNeededToExtract :: int
  generalPurposeBitFlag :: int
  compressionMethod :: int
  lastModFileTime :: int
  lastModFileDate :: int
  crc32 :: int
  compressedSize :: int
  uncompressedSize :: int
  fileName :: string
  versionMadeby :: int
  fileComment :: string
  diskNumberStart :: int
  internalFileAttributes :: int
  externalFileAttributes :: int
  relativeOffsetOfLocalHeader :: int

definition createFileInfoObject :: "string \<Rightarrow> int \<Rightarrow> string \<Rightarrow> fileInfo" where
  "createFileInfoObject fileName' localHeaderOffset fileComment' =
     (let shouldCompress = True; version = 45
      in \<lparr>versionNeededToExtract = version,
          generalPurposeBitFlag = js_or Flags_Descriptor Flags_UTF8,
          compressionMethod =
            (if shouldCompress then CompressionMethods_deflate else CompressionMethods_store),
          lastModFileTime = 0,
          lastModFileDate = 0,
          crc32 = 0xffffffff,
          compressedSize = 0,
          uncompressedSize = 0,
          fileName = fileName',
          versionMadeby = version,
          fileComment = fileComment',
          diskNumberStart = 0,
          internalFileAttributes = 0,
          externalFileAttributes = 0,
          relativeOffsetOfLocalHeader = localHeaderOffset\<rparr>)"

text \<open>
  A run of writes \<open>bytesWritten = buf.writeX(value, bytesWritten)\<close>, one after the other:
  the list holds the kind and the value of each write, in the order of the source lines.
\<close>

fun write_all :: "(ftype \<times> jsval) list \<Rightarrow> byte list \<Rightarrow> nat \<Rightarrow> error + (byte list \<times> nat)" where
  "write_all [] buf bytesWritten = Inr (buf, bytesWritten)"
| "write_all ((type, value) # rest) buf bytesWritten =
     (case buf_write type (Some value) bytesWritten buf of
        Inl e \<Rightarrow> Inl e
      | Inr (buf', bytesWritten') \<Rightarrow> write_all rest buf' bytesWritten')"

text \<open>
  The object \<open>zip64Fields\<close>: each of its three keys is set or not. \<open>numKeys\<close> is
  \<open>Object.keys(zip64Fields).length\<close>.
\<close>

record zip64Fields =
  z_uncompressedSize :: "int option"
  z_compressedSize :: "int option"
  z_relativeOffsetOfLocalHeader :: "int option"

definition numKeys :: "zip64Fields \<Rightarrow> nat" where
  "numKeys z = (if z_uncompressedSize z \<noteq> None then 1 else 0)
             + (if z_compressedSize z \<noteq> None then 1 else 0)
             + (if z_relativeOffsetOfLocalHeader z \<noteq> None then 1 else 0)"

definition createZIP64ExtraField :: "zip64Fields \<Rightarrow> bool \<Rightarrow> error + byte list" where
  "createZIP64ExtraField zip64Fields isCentralDirectory =
     (let optionalFieldsLength = numKeys zip64Fields * 8;
          zip64Header = Buffer_alloc (4 + optionalFieldsLength)
      in case write_all
           ([(u16, Num 0x0001),
             (u16, Num (int optionalFieldsLength))]
            @ (case z_uncompressedSize zip64Fields of
                 None \<Rightarrow> []
               | Some v \<Rightarrow> [(u64, BigInt (Num (if isCentralDirectory then v else 0)))])
            @ (case z_compressedSize zip64Fields of
                 None \<Rightarrow> []
               | Some v \<Rightarrow> [(u64, BigInt (Num (if isCentralDirectory then v else 0)))])
            @ (case z_relativeOffsetOfLocalHeader zip64Fields of
                 None \<Rightarrow> []
               | Some v \<Rightarrow> [(u64, BigInt (Num v))]))
           zip64Header 0 of
          Inl e \<Rightarrow> Inl e
        | Inr (zip64Header, bytesWritten) \<Rightarrow> Inr zip64Header)"

text \<open>
  \<open>createFileHeader\<close>, first part: the fields that move to the ZIP64 extra field, and the
  copy of the file info with their 32-bit slots set to \<open>0xffffffff\<close>.
\<close>

definition promote_sizes :: "zip64Fields \<times> fileInfo \<Rightarrow> zip64Fields \<times> fileInfo" where
  "promote_sizes zf =
     (case zf of (zip64Fields, fileInfo) \<Rightarrow>
        if uncompressedSize fileInfo \<ge> 0xffffffff \<or> compressedSize fileInfo \<ge> 0xffffffff
        then (zip64Fields\<lparr>z_compressedSize := Some (compressedSize fileInfo),
                           z_uncompressedSize := Some (uncompressedSize fileInfo)\<rparr>,
              fileInfo\<lparr>uncompressedSize := 0xffffffff, compressedSize := 0xffffffff\<rparr>)
        else (zip64Fields, fileInfo))"

definition promote_offset :: "zip64Fields \<times> fileInfo \<Rightarrow> zip64Fields \<times> fileInfo" where
  "promote_offset zf =
     (case zf of (zip64Fields, fileInfo) \<Rightarrow>
        if relativeOffsetOfLocalHeader fileInfo > 0xffffffff
        then (zip64Fields\<lparr>z_relativeOffsetOfLocalHeader := Some (relativeOffsetOfLocalHeader fileInfo)\<rparr>,
              fileInfo\<lparr>relativeOffsetOfLocalHeader := 0xffffffff\<rparr>)
        else (zip64Fields, fileInfo))"

definition moved_fields :: "fileInfo \<Rightarrow> bool \<Rightarrow> zip64Fields \<times> fileInfo" where
  "moved_fields originalFileInfo isCentralDirectory =
     (let start = (\<lparr>z_uncompressedSize = None, z_compressedSize = None,
                    z_relativeOffsetOfLocalHeader = None\<rparr>, originalFileInfo)
      in if isCentralDirectory then promote_offset (promote_sizes start) else start)"

text \<open>The writes of the fixed part of the header, in the order of the source.\<close>

definition header_fields :: "fileInfo \<Rightarrow> bool \<Rightarrow> nat \<Rightarrow> nat \<Rightarrow> nat \<Rightarrow> (ftype \<times> jsval) list" where
  "header_fields fileInfo isCentralDirectory fileNameLength extraFieldLength fileCommentLength =
     [(u32, Num (if isCentralDirectory then Signatures_centralDirectoryHeader
                 else Signatures_localFileHeader))]
     @ (if isCentralDirectory then [(u16, Num (versionMadeby fileInfo))] else [])
     @ [(u16, Num (versionNeededToExtract fileInfo)),
        (u16, Num (generalPurposeBitFlag fileInfo)),
        (u16, Num (compressionMethod fileInfo)),
        (u16, Num (lastModFileTime fileInfo)),
        (u16, Num (lastModFileDate fileInfo)),
        (u32, Num (if isCentralDirectory then crc32 fileInfo else 0)),
        (u32, Num (if isCentralDirectory then compressedSize fileInfo else 0)),
        (u32, Num (if isCentralDirectory then uncompressedSize fileInfo else 0)),
        (u16, Num (int fileNameLength)),
        (u16, Num (int extraFieldLength))]
     @ (if isCentralDirectory
        then [(u16, Num (int fileCommentLength)),
              (u16, Num 0),
              (u16, Num (internalFileAttributes fileInfo)),
              (u32, Num (externalFileAttributes fileInfo)),
              (u32, Num (relativeOffsetOfLocalHeader fileInfo))]
        else [])"

definition createFileHeader :: "fileInfo \<Rightarrow> bool \<Rightarrow> error + byte list" where
  "createFileHeader originalFileInfo isCentralDirectory =
     (let fileNameBuffer = Buffer_from (fileName originalFileInfo);
          headerSize = (if isCentralDirectory then 46 else 30) + length fileNameBuffer;
          (zip64Fields, fileInfo) = moved_fields originalFileInfo isCentralDirectory
      in case (if numKeys zip64Fields > 0
               then (case createZIP64ExtraField zip64Fields isCentralDirectory of
                       Inl e \<Rightarrow> Inl e | Inr h \<Rightarrow> Inr (Some h))
               else Inr None) of
           Inl e \<Rightarrow> Inl e
         | Inr zip64Header \<Rightarrow>
             (let extraFieldLength = (case zip64Header of None \<Rightarrow> 0 | Some h \<Rightarrow> length h);
                  headerSize = headerSize + extraFieldLength;
                  fileCommentBuffer = Buffer_from (fileComment fileInfo);
                  fileCommentLength = (if isCentralDirectory then length fileCommentBuffer else 0);
                  headerSize = headerSize + fileCommentLength;
                  header = Buffer_alloc headerSize
              in case write_all
                   (header_fields fileInfo isCentralDirectory (length fileNameBuffer)
                      extraFieldLength fileCommentLength) header 0 of
                   Inl e \<Rightarrow> Inl e
                 | Inr (header, bytesWritten) \<Rightarrow>
                     (let (header, n) = Buffer_copy fileNameBuffer header bytesWritten;
                          bytesWritten = bytesWritten + n;
                          (header, n) = (case zip64Header of
                                           Some h \<Rightarrow> if extraFieldLength > 0
                                                     then Buffer_copy h header bytesWritten
                                                     else (header, 0)
                                         | None \<Rightarrow> (header, 0));
                          bytesWritten = bytesWritten + n;
                          (header, n) = (if isCentralDirectory \<and> fileCommentLength > 0
                                         then Buffer_copy fileCommentBuffer header bytesWritten
                                         else (header, 0))
                      in Inr header)))"

text \<open>The records at the end of the archive.\<close>

definition createZIP64EndOfCentralDirectoryRecord :: "int \<Rightarrow> int \<Rightarrow> int \<Rightarrow> error + byte list" where
  "createZIP64EndOfCentralDirectoryRecord centralDirectoryStart centralDirectorySize numEntries =
     (let sizeOfFixedFields = 56;
          sizeOfCentralDirectoryRecord = sizeOfFixedFields - 12
      in case createBufferForStruct Structs_zip64EndOfCentralDirectoryRecord
           [''sizeOfCentralDirectoryRecord'' \<mapsto> BigInt (Num sizeOfCentralDirectoryRecord),
            ''numEntries'' \<mapsto> BigInt (Num numEntries),
            ''centralDirectorySize'' \<mapsto> BigInt (Num centralDirectorySize),
            ''centralDirectoryStart'' \<mapsto> BigInt (Num centralDirectoryStart)] 0 0 of
          Inl e \<Rightarrow> Inl e
        | Inr (record, bytesWritten) \<Rightarrow> Inr record)"

text \<open>The archive comment is the empty string at the only call.\<close>

definition createEndOfCentralDirectoryRecord :: "int \<Rightarrow> int \<Rightarrow> int \<Rightarrow> error + byte list" where
  "createEndOfCentralDirectoryRecord centralDirectoryStart centralDirectorySize numEntries =
     (let numEntries = (if numEntries \<ge> 0xffff then 0xffff else numEntries);
          centralDirectorySize =
            (if centralDirectorySize \<ge> 0xffffffff then 0xffffffff else centralDirectorySize);
          centralDirectoryStart =
            (if centralDirectoryStart \<ge> 0xffffffff then 0xffffffff else centralDirectoryStart)
      in case createBufferForStruct Structs_endOfCentralDirectoryRecord
           [''numEntries'' \<mapsto> Num numEntries,
            ''centralDirectorySize'' \<mapsto> Num centralDirectorySize,
            ''centralDirectoryStart'' \<mapsto> Num centralDirectoryStart,
            ''zipFileCommentLength'' \<mapsto> Num 0] 0 0 of
          Inl e \<Rightarrow> Inl e
        | Inr (record, bytesWritten) \<Rightarrow> Inr record)"

definition createZIP64EndOfCentralDirectoryLocator :: "int \<Rightarrow> error + byte list" where
  "createZIP64EndOfCentralDirectoryLocator relativeOffset =
     (case createBufferForStruct Structs_zip64EndOfCentralDirectoryLocator
           [''relativeOffset'' \<mapsto> BigInt (Num relativeOffset)] 0 0 of
        Inl e \<Rightarrow> Inl e
      | Inr (record, bytesWritten) \<Rightarrow> Inr record)"

text \<open>
  The data of the descriptor is the file info spread into an object, with the two sizes
  as BigInts. The names of the file info that are Numbers are in the map; the definition
  reads \<open>crc32\<close> and the two sizes.
\<close>

definition createZIP64DataDescriptor :: "fileInfo \<Rightarrow> error + byte list" where
  "createZIP64DataDescriptor fileInfo =
     (case createBufferForStruct Structs_zip64DataDescriptor
           [''versionNeededToExtract'' \<mapsto> Num (versionNeededToExtract fileInfo),
            ''generalPurposeBitFlag'' \<mapsto> Num (generalPurposeBitFlag fileInfo),
            ''compressionMethod'' \<mapsto> Num (compressionMethod fileInfo),
            ''lastModFileTime'' \<mapsto> Num (lastModFileTime fileInfo),
            ''lastModFileDate'' \<mapsto> Num (lastModFileDate fileInfo),
            ''crc32'' \<mapsto> Num (crc32 fileInfo),
            ''versionMadeby'' \<mapsto> Num (versionMadeby fileInfo),
            ''diskNumberStart'' \<mapsto> Num (diskNumberStart fileInfo),
            ''internalFileAttributes'' \<mapsto> Num (internalFileAttributes fileInfo),
            ''externalFileAttributes'' \<mapsto> Num (externalFileAttributes fileInfo),
            ''relativeOffsetOfLocalHeader'' \<mapsto> Num (relativeOffsetOfLocalHeader fileInfo),
            ''compressedSize'' \<mapsto> BigInt (Num (compressedSize fileInfo)),
            ''uncompressedSize'' \<mapsto> BigInt (Num (uncompressedSize fileInfo))] 0 0 of
        Inl e \<Rightarrow> Inl e
      | Inr (record, bytesWritten) \<Rightarrow> Inr record)"

text \<open>
  The state of one archive. \<open>writeStream\<close> is the output sink: the bytes handed to it so
  far, in order. \<open>stream_write\<close> hands a chunk over; what \<open>write\<close> returns is a boolean
  (whether the caller may go on writing without waiting), which the environment
  decides: \<open>wrote_ok\<close> gives it from the bytes that the sink has taken.
\<close>

record zipState =
  writeStream :: "byte list"
  currentPosInWriteStream :: int
  fileInfoList :: "fileInfo list"

definition startZip :: zipState where
  "startZip = \<lparr>writeStream = [], currentPosInWriteStream = 0, fileInfoList = []\<rparr>"

definition stream_write :: "(byte list \<Rightarrow> bool) \<Rightarrow> byte list \<Rightarrow> zipState \<Rightarrow> zipState \<times> bool" where
  "stream_write wrote_ok chunk state =
     (let sink = writeStream state @ chunk in (state\<lparr>writeStream := sink\<rparr>, wrote_ok sink))"

text \<open>A boolean added to a Number: \<open>true\<close> is 1 and \<open>false\<close> is 0.\<close>

definition Number_of_bool :: "bool \<Rightarrow> int" where
  "Number_of_bool b = (if b then 1 else 0)"

text \<open>
  The transform \<open>t1\<close> sees every chunk read from the file, \<open>t2\<close> every chunk that the
  compression stage gives out, which then goes to the sink.
\<close>

definition t1_transform :: "byte list \<Rightarrow> fileInfo \<Rightarrow> fileInfo" where
  "t1_transform chunk fileInfo =
     fileInfo\<lparr>uncompressedSize := uncompressedSize fileInfo + int (length chunk),
              crc32 := updateCRC chunk (crc32 fileInfo)\<rparr>"

definition t2_transform ::
  "(byte list \<Rightarrow> bool) \<Rightarrow> byte list \<Rightarrow> fileInfo \<times> zipState \<Rightarrow> fileInfo \<times> zipState" where
  "t2_transform wrote_ok chunk fs =
     (case fs of (fileInfo, state) \<Rightarrow>
        (let fileInfo = fileInfo\<lparr>compressedSize := compressedSize fileInfo + int (length chunk)\<rparr>;
             state = state\<lparr>currentPosInWriteStream := currentPosInWriteStream state + int (length chunk)\<rparr>
         in (fileInfo, fst (stream_write wrote_ok chunk state))))"

text \<open>
  \<open>addFileToZip\<close>. The chunks of the read stream are \<open>chunks\<close>; the compression stage is
  the function \<open>deflate\<close> from the chunks that enter it to the chunks that leave it. The
  file info is an object that the list holds by reference, so the list's last element
  is the file info as it is at the end.
\<close>

definition addFileToZip ::
  "(byte list \<Rightarrow> bool) \<Rightarrow> (byte list list \<Rightarrow> byte list list) \<Rightarrow> zipState \<Rightarrow> string \<Rightarrow> byte list list
     \<Rightarrow> error + zipState" where
  "addFileToZip wrote_ok deflate state fileName' chunks =
     (let fileInfo = createFileInfoObject fileName' (currentPosInWriteStream state) []
      in case createFileHeader fileInfo False of
           Inl e \<Rightarrow> Inl e
         | Inr localFileHeader \<Rightarrow>
             (let state = fst (stream_write wrote_ok localFileHeader state);
                  state = state\<lparr>currentPosInWriteStream :=
                            currentPosInWriteStream state + int (length localFileHeader)\<rparr>;
                  fileInfo = fold t1_transform chunks fileInfo;
                  (fileInfo, state) = fold (t2_transform wrote_ok) (deflate chunks) (fileInfo, state);
                  fileInfo = fileInfo\<lparr>crc32 := js_ushr (js_xor (crc32 fileInfo) 0xffffffff) 0\<rparr>
              in case createZIP64DataDescriptor fileInfo of
                   Inl e \<Rightarrow> Inl e
                 | Inr dataDescriptor \<Rightarrow>
                     (let state = fst (stream_write wrote_ok dataDescriptor state);
                          state = state\<lparr>currentPosInWriteStream :=
                                    currentPosInWriteStream state + int (length dataDescriptor)\<rparr>
                      in Inr (state\<lparr>fileInfoList := fileInfoList state @ [fileInfo]\<rparr>))))"

text \<open>\<open>endZip\<close>: the loop over the file infos, then the three records.\<close>

fun endZip_loop :: "(byte list \<Rightarrow> bool) \<Rightarrow> fileInfo list \<Rightarrow> zipState \<Rightarrow> error + zipState" where
  "endZip_loop wrote_ok [] state = Inr state"
| "endZip_loop wrote_ok (fileInfo # rest) state =
     (case createFileHeader fileInfo True of
        Inl e \<Rightarrow> Inl e
      | Inr centralDirectoryRecord \<Rightarrow>
          (let state = fst (stream_write wrote_ok centralDirectoryRecord state);
               state = state\<lparr>currentPosInWriteStream :=
                         currentPosInWriteStream state + int (length centralDirectoryRecord)\<rparr>
           in endZip_loop wrote_ok rest state))"

definition endZip :: "(byte list \<Rightarrow> bool) \<Rightarrow> zipState \<Rightarrow> error + zipState" where
  "endZip wrote_ok state =
     (let centralDirectoryStartPos = currentPosInWriteStream state
      in case endZip_loop wrote_ok (fileInfoList state) state of
           Inl e \<Rightarrow> Inl e
         | Inr state \<Rightarrow>
             (let centralDirectorySize = currentPosInWriteStream state - centralDirectoryStartPos
              in case createZIP64EndOfCentralDirectoryRecord centralDirectoryStartPos
                        centralDirectorySize (int (length (fileInfoList state))) of
                   Inl e \<Rightarrow> Inl e
                 | Inr zip64EndRecord \<Rightarrow>
                     (let endRecordOffset = currentPosInWriteStream state;
                          (state, r) = stream_write wrote_ok zip64EndRecord state;
                          state = state\<lparr>currentPosInWriteStream :=
                                    currentPosInWriteStream state + Number_of_bool r\<rparr>
                      in case createZIP64EndOfCentralDirectoryLocator endRecordOffset of
                           Inl e \<Rightarrow> Inl e
                         | Inr zip64EndLocator \<Rightarrow>
                             (let (state, r) = stream_write wrote_ok zip64EndLocator state;
                                  state = state\<lparr>currentPosInWriteStream :=
                                            currentPosInWriteStream state + Number_of_bool r\<rparr>
                              in case createEndOfCentralDirectoryRecord centralDirectoryStartPos
                                        centralDirectorySize (int (length (fileInfoList state))) of
                                   Inl e \<Rightarrow> Inl e
                                 | Inr endRecord \<Rightarrow>
                                     (let (state, r) = stream_write wrote_ok endRecord state;
                                          state = state\<lparr>currentPosInWriteStream :=
                                                    currentPosInWriteStream state + Number_of_bool r\<rparr>
                                      in Inr state)))))"

section \<open>Archive Writer: notions for the statements\<close>

text \<open>The bytes of one write of \<open>write_all\<close>, and whether its value fits.\<close>

definition enc2 :: "ftype \<times> jsval \<Rightarrow> byte list" where
  "enc2 f = enc (fst f) (snd f)"

definition fits2 :: "ftype \<times> jsval \<Rightarrow> bool" where
  "fits2 f = fits (fst f) (snd f)"

text \<open>The bytes of the ZIP64 extra field for the fields that moved.\<close>

definition extra_bytes :: "zip64Fields \<Rightarrow> byte list" where
  "extra_bytes z =
     le_bytes 2 1 @ le_bytes 2 (int (numKeys z * 8))
     @ (case z_uncompressedSize z of None \<Rightarrow> [] | Some v \<Rightarrow> le_bytes 8 v)
     @ (case z_compressedSize z of None \<Rightarrow> [] | Some v \<Rightarrow> le_bytes 8 v)
     @ (case z_relativeOffsetOfLocalHeader z of None \<Rightarrow> [] | Some v \<Rightarrow> le_bytes 8 v)"

definition in_u64 :: "int option \<Rightarrow> bool" where
  "in_u64 x = (case x of None \<Rightarrow> True | Some v \<Rightarrow> 0 \<le> v \<and> v < 2 ^ 64)"

text \<open>
  A file info that \<open>createFileHeader\<close> can write as a central-directory header: every
  value fits the width of the slot that takes it, the sizes and the offset fit 64 bits,
  and the name and the comment are at most \<open>0xffff\<close> bytes long.
\<close>

definition entry_ok :: "fileInfo \<Rightarrow> bool" where
  "entry_ok fi =
     (fits u16 (Num (versionMadeby fi)) \<and> fits u16 (Num (versionNeededToExtract fi))
      \<and> fits u16 (Num (generalPurposeBitFlag fi)) \<and> fits u16 (Num (compressionMethod fi))
      \<and> fits u16 (Num (lastModFileTime fi)) \<and> fits u16 (Num (lastModFileDate fi))
      \<and> fits u32 (Num (crc32 fi)) \<and> fits u16 (Num (internalFileAttributes fi))
      \<and> fits u32 (Num (externalFileAttributes fi))
      \<and> fits u64 (Big (compressedSize fi)) \<and> fits u64 (Big (uncompressedSize fi))
      \<and> fits u64 (Big (relativeOffsetOfLocalHeader fi))
      \<and> length (fileName fi) \<le> 0xffff \<and> length (fileComment fi) \<le> 0xffff)"

definition sizes_overflow :: "fileInfo \<Rightarrow> bool" where
  "sizes_overflow fi = (uncompressedSize fi \<ge> 0xffffffff \<or> compressedSize fi \<ge> 0xffffffff)"

definition offset_overflow :: "fileInfo \<Rightarrow> bool" where
  "offset_overflow fi = (relativeOffsetOfLocalHeader fi > 0xffffffff)"

definition central_header_bytes :: "fileInfo \<Rightarrow> byte list" where
  "central_header_bytes fi =
     (let (z, fi') = moved_fields fi True;
          extra = (if numKeys z > 0 then extra_bytes z else [])
      in concat (map enc2 (header_fields fi' True (length (fileName fi)) (length extra)
                             (length (fileComment fi))))
         @ Buffer_from (fileName fi) @ extra @ Buffer_from (fileComment fi))"

section \<open>Archive Locator (nixip_read.mjs)\<close>

definition searchSize :: nat where
  "searchSize = 2048"

text \<open>
  The file behind the handle is its list of bytes. \<open>fd.read(buffer, 0, length, position)\<close>
  copies the bytes of the file from \<open>position\<close> on, at most \<open>length\<close> of them, to the start of
  the buffer and leaves the rest of the buffer as it was; the result is the buffer and
  \<open>bytesRead\<close>.
\<close>

definition fd_read :: "byte list \<Rightarrow> byte list \<Rightarrow> nat \<Rightarrow> nat \<Rightarrow> byte list \<times> nat" where
  "fd_read file buffer len position =
     (let chunk = take len (drop position file)
      in (chunk @ drop (length chunk) buffer, length chunk))"

text \<open>\<open>buffer.indexOf(value)\<close>: the first index at which \<open>value\<close> starts, \<open>None\<close> for \<open>-1\<close>.\<close>

fun indexOf_from :: "byte list \<Rightarrow> byte list \<Rightarrow> nat \<Rightarrow> nat option" where
  "indexOf_from [] v i = (if v = [] then Some i else None)"
| "indexOf_from (b # bs) v i =
     (if take (length v) (b # bs) = v then Some i else indexOf_from bs v (Suc i))"

definition Buffer_indexOf :: "byte list \<Rightarrow> byte list \<Rightarrow> nat option" where
  "Buffer_indexOf buffer v = indexOf_from buffer v 0"

text \<open>\<open>signatureBuffer\<close>: four bytes with the locator's signature written into them.\<close>

definition signatureBuffer :: "byte list" where
  "signatureBuffer = le_bytes 4 Signatures_zip64EndOfCentralDirectoryLocator"

text \<open>
  \<open>nixip_read.mjs\<close> imports the object \<open>Definitions\<close> from \<open>constants.mjs\<close>; no source file
  has it. The functions take it as a parameter: the two record definitions that they use.
  \<open>Structs_as_Definitions\<close> is that object with the layouts of \<open>Structs\<close>, the only
  layouts of these two records in the sources.
\<close>

record Definitions =
  D_zip64EndOfCentralDirectoryLocator :: struct_def
  D_zip64EndOfCentralDirectoryRecord :: struct_def

definition Structs_as_Definitions :: Definitions where
  "Structs_as_Definitions =
     \<lparr>D_zip64EndOfCentralDirectoryLocator = Structs_zip64EndOfCentralDirectoryLocator,
      D_zip64EndOfCentralDirectoryRecord = Structs_zip64EndOfCentralDirectoryRecord\<rparr>"

text \<open>
  The loop \<open>while (!found)\<close> of \<open>findZip64Locator\<close>. It has no other exit, so it is a
  partial function: \<open>None\<close> is a loop that never ends. When it ends, the result is the
  buffer, \<open>lastBytesRead\<close> and \<open>signatureOffset\<close>.
\<close>

partial_function (option) findZip64Locator_loop ::
  "byte list \<Rightarrow> byte list \<Rightarrow> int \<Rightarrow> (byte list \<times> nat \<times> int) option" where
  "findZip64Locator_loop file buffer negativeOffset =
     (let position = max 0 (int (length file) - int searchSize - negativeOffset);
          read = fd_read file buffer searchSize (nat position);
          lastBytesRead = snd read
      in case Buffer_indexOf (fst read) signatureBuffer of
           None \<Rightarrow>
             findZip64Locator_loop file (fst read)
               (negativeOffset + (int searchSize - int (length signatureBuffer)))
         | Some bufferOffset \<Rightarrow> Some (fst read, lastBytesRead, position + int bufferOffset))"

text \<open>
  \<open>findZip64Locator\<close>: the loop, then the decoding of the locator. The result is the
  locator, or \<open>null\<close> when fewer than 20 bytes follow the signature by the function's
  count (the branch that should read them again is empty).
\<close>

definition findZip64Locator :: "Definitions \<Rightarrow> byte list \<Rightarrow> (error + Struct option) option" where
  "findZip64Locator defs file =
     (case findZip64Locator_loop file (Buffer_alloc searchSize) 0 of
        None \<Rightarrow> None
      | Some (buffer, lastBytesRead, signatureOffset) \<Rightarrow>
          Some (let sizeOfCentralDirectoryLocator = 20;
                    bytesAfterSignature = int lastBytesRead - signatureOffset
                in if bytesAfterSignature < sizeOfCentralDirectoryLocator then Inr None
                   else (case FromBuffer (D_zip64EndOfCentralDirectoryLocator defs) buffer
                                (nat signatureOffset) of
                           Inl e \<Rightarrow> Inl e
                         | Inr locator \<Rightarrow> Inr (Some locator))))"

text \<open>
  The position given to \<open>fd.read\<close> is \<open>locator.relativeOffset\<close>; without a position
  (\<open>undefined\<close>) the read is from the start of the file, where the handle stands.
\<close>

fun read_position :: "jsval option \<Rightarrow> nat" where
  "read_position None = 0"
| "read_position (Some (Num v)) = nat v"
| "read_position (Some (Big v)) = nat v"

text \<open>
  \<open>readZip\<close>. Reading a property of \<open>null\<close> throws a TypeError. The result is what the
  last line hands to \<open>readZip64CentralDirectory\<close>, which takes \<open>centralDirectoryStart\<close> and
  \<open>centralDirectorySize\<close> from the end record.
\<close>

definition readZip :: "Definitions \<Rightarrow> byte list \<Rightarrow> (error + jsval option \<times> jsval option) option" where
  "readZip defs file =
     (case findZip64Locator defs file of
        None \<Rightarrow> None
      | Some (Inl e) \<Rightarrow> Some (Inl e)
      | Some (Inr None) \<Rightarrow> Some (Inl TypeError)
      | Some (Inr (Some locator)) \<Rightarrow>
          Some (case Struct_new (D_zip64EndOfCentralDirectoryRecord defs) Map.empty of
                  Inl e \<Rightarrow> Inl e
                | Inr zip64EndOfCIR \<Rightarrow>
                    (let size = Struct_size zip64EndOfCIR;
                         read = fd_read file (Buffer_alloc size) size
                                  (read_position (Struct_get locator ''relativeOffset''));
                         endOfCIRBuffer = fst read
                     in case readFromBuffer zip64EndOfCIR endOfCIRBuffer 0 of
                          Inl e \<Rightarrow> Inl e
                        | Inr (endRecord, n) \<Rightarrow>
                            Inr (Struct_get endRecord ''centralDirectoryStart'',
                                 Struct_get endRecord ''centralDirectorySize''))))"

section \<open>Archive Locator: notions for the statements\<close>

text \<open>The bytes \<open>v\<close> occur in \<open>xs\<close>, starting at some index.\<close>

definition occurs :: "byte list \<Rightarrow> byte list \<Rightarrow> bool" where
  "occurs v xs = (\<exists>k. take (length v) (drop k xs) = v)"

text \<open>
  What holds of the buffer and the offset each time the loop of \<open>findZip64Locator\<close>
  starts over: the buffer has \<open>searchSize\<close> bytes, and those that no read of this file
  reaches are still zero.
\<close>

definition scan_inv :: "byte list \<Rightarrow> byte list \<Rightarrow> int \<Rightarrow> bool" where
  "scan_inv file buffer negativeOffset =
     (length buffer = searchSize \<and> 0 \<le> negativeOffset
      \<and> drop (min (length file) searchSize) buffer
          = replicate (searchSize - min (length file) searchSize) 0)"

text \<open>
  A hand-built archive of 4096 bytes: a ZIP64 end-of-central-directory record at offset 0
  (one entry, central directory of 100 bytes at offset 200), zero bytes, and in the last
  20 bytes a ZIP64 locator that points at offset 0.
\<close>

definition hand_built_end_record :: "byte list" where
  "hand_built_end_record =
     le_bytes 4 0x06064b50 @ le_bytes 8 44 @ le_bytes 2 45 @ le_bytes 2 45 @ le_bytes 4 0
     @ le_bytes 4 0 @ le_bytes 8 1 @ le_bytes 8 1 @ le_bytes 8 100 @ le_bytes 8 200"

definition hand_built_locator :: "byte list" where
  "hand_built_locator = le_bytes 4 0x07064b50 @ le_bytes 4 0 @ le_bytes 8 0 @ le_bytes 4 1"

definition hand_built_archive :: "byte list" where
  "hand_built_archive = hand_built_end_record @ replicate 4020 0 @ hand_built_locator"

text \<open>A classic archive without entries and without ZIP64 records: 22 bytes.\<close>

definition classic_empty_archive :: "byte list" where
  "classic_empty_archive = le_bytes 4 0x06054b50 @ replicate 18 0"

section \<open>Display names: proofs\<close>

lemma spec_lastSegment_Cons:
  "spec_lastSegment (c # cs) =
     (if list_ex is_sep cs then spec_lastSegment cs else if is_sep c then cs else c # cs)"
  by (auto simp: spec_lastSegment_def list_ex_iff takeWhile_append)

lemma getFileNameFromPath_loop_eq:
  "getFileNameFromPath_loop acc p = (if list_ex is_sep p then spec_lastSegment p else acc @ p)"
proof (induction p arbitrary: acc)
  case Nil
  show ?case by simp
next
  case (Cons c cs)
  show ?case
    by (simp add: Cons.IH spec_lastSegment_Cons) (simp add: is_sep_def)
qed

lemma spec_lastSegment_no_sep: "\<not> list_ex is_sep p \<Longrightarrow> spec_lastSegment p = p"
proof -
  assume "\<not> list_ex is_sep p"
  then have "\<forall>x\<in>set (rev p). \<not> is_sep x"
    by (simp add: list_ex_iff)
  then have tw: "takeWhile (\<lambda>c. \<not> is_sep c) (rev p) = rev p"
    by (simp only: takeWhile_eq_all_conv)
  show ?thesis
    unfolding spec_lastSegment_def tw by (rule rev_rev_ident)
qed

lemma getFileNameFromPath_eq: "getFileNameFromPath p = spec_lastSegment p"
proof (cases "list_ex is_sep p")
  case True
  then show ?thesis
    by (simp only: getFileNameFromPath_def getFileNameFromPath_loop_eq if_True)
next
  case False
  have "getFileNameFromPath p = p"
    using False by (simp only: getFileNameFromPath_def getFileNameFromPath_loop_eq if_False append_Nil)
  then show ?thesis
    using spec_lastSegment_no_sep [OF False] by (rule trans [OF _ sym])
qed

lemma regex_at_eq:
  "regex_at cap s = (if list_ex (\<lambda>c. c = CHR ''/'') s then None else Some (cap @ s))"
  by (induction s arbitrary: cap) simp_all

lemma regex_exec_eq:
  "regex_exec s = Some (rev (takeWhile (\<lambda>c. c \<noteq> CHR ''/'') (rev s)))"
proof (induction s)
  case Nil
  show ?case by simp
next
  case (Cons c cs)
  show ?case
    by (auto simp: Cons.IH regex_at_eq list_ex_iff takeWhile_append)
qed

lemma replaceAll_backslash_segment:
  "rev (takeWhile (\<lambda>c. c \<noteq> CHR ''/'') (rev (replaceAll_backslash p))) = spec_lastSegment p"
proof (induction p rule: rev_induct)
  case Nil
  show ?case by (simp add: replaceAll_backslash_def spec_lastSegment_def)
next
  case (snoc c cs)
  then show ?case
    by (auto simp: replaceAll_backslash_def spec_lastSegment_def is_sep_def)
qed

lemma getFileName_eq:
  "getFileName p = (if spec_lastSegment p \<noteq> [] then Inr (Some (spec_lastSegment p)) else Inr None)"
  by (simp add: getFileName_def regex_exec_eq replaceAll_backslash_segment)


text \<open>
  C10. For a path whose last segment is not empty, \<open>getFileNameFromPath\<close> and
  \<open>getFileName\<close> return the same string, the text after the last \<open>/\<close> or \<open>\\<close>, which is
  the whole path when it has no separator. For a path that ends in a separator the first
  returns the empty string and the second \<open>null\<close>.
\<close>

theorem fileName_functions_agree:
  "(spec_lastSegment p \<noteq> [] \<longrightarrow>
      getFileNameFromPath p = spec_lastSegment p \<and> getFileName p = Inr (Some (spec_lastSegment p)))
   \<and> (\<not> list_ex is_sep p \<longrightarrow> spec_lastSegment p = p)
   \<and> (is_sep c \<longrightarrow> getFileNameFromPath (p @ [c]) = [] \<and> getFileName (p @ [c]) = Inr None)"
proof -
  have "is_sep c \<Longrightarrow> spec_lastSegment (p @ [c]) = []"
    by (simp add: spec_lastSegment_def)
  then show ?thesis
    by (simp add: getFileNameFromPath_eq getFileName_eq spec_lastSegment_no_sep)
qed

theorem fileName_functions_agree_witness:
  "spec_lastSegment ''/a/b/f.txt'' \<noteq> [] \<and> getFileNameFromPath ''/a/b/f.txt'' = ''f.txt''
   \<and> getFileName ''/a/b/f.txt'' = Inr (Some ''f.txt'')
   \<and> \<not> list_ex is_sep ''f.txt'' \<and> spec_lastSegment ''f.txt'' = ''f.txt''
   \<and> is_sep CHR ''/'' \<and> getFileNameFromPath (''a/b'' @ [CHR ''/'']) = []
   \<and> getFileName (''a/b'' @ [CHR ''/'']) = Inr None"
  using fileName_functions_agree [of "''/a/b/f.txt''" "CHR ''/''"]
    fileName_functions_agree [of "''f.txt''" "CHR ''/''"]
    fileName_functions_agree [of "''a/b''" "CHR ''/''"]
  by (simp add: spec_lastSegment_def is_sep_def)
section \<open>CRC-32: proofs\<close>

lemma crcTable_nth: "n < 256 \<Longrightarrow> crcTable ! n = crc_entry n"
  by (simp add: crcTable_def)

lemma crc_entry_unfold:
  "crc_entry i =
     crc_round (crc_round (crc_round (crc_round
       (crc_round (crc_round (crc_round (crc_round (int i))))))))"
  by (simp add: crc_entry_def eval_nat_numeral)

lemma updateCRC_append: "updateCRC (a @ b) crc = updateCRC b (updateCRC a crc)"
  by (simp add: updateCRC_def)

lemma fold_updateCRC_concat: "fold updateCRC chunks crc = updateCRC (concat chunks) crc"
  by (induction chunks arbitrary: crc) (simp_all add: updateCRC_append, simp add: updateCRC_def)

lemma crc_check_single: "crc_finish (updateCRC (ascii_bytes ''123456789'') 0xffffffff) = 0xCBF43926"
  by (simp add: crc_finish_def updateCRC_def crc_byte_def ascii_bytes_def
      crcTable_nth crc_entry_unfold crc_round_def js_xor_def js_and_def js_ushr_def)

text \<open>
  C7. Starting from \<open>0xFFFFFFFF\<close>, feeding the nine ASCII bytes of "123456789" to
  \<open>updateCRC\<close> in one chunk or split into chunks in any way, and inverting the result as
  the callers do, gives \<open>0xCBF43926\<close>.
\<close>

theorem crc32_check_value:
  "concat chunks = ascii_bytes ''123456789'' \<Longrightarrow> crc_of_chunks chunks = 0xCBF43926"
  by (simp add: crc_of_chunks_def fold_updateCRC_concat crc_check_single)

theorem crc32_check_value_witness:
  "concat [ascii_bytes ''1234'', [], ascii_bytes ''56789''] = ascii_bytes ''123456789''
   \<and> crc_of_chunks [ascii_bytes ''1234'', [], ascii_bytes ''56789''] = 0xCBF43926"
proof -
  have h: "concat [ascii_bytes ''1234'', [], ascii_bytes ''56789''] = ascii_bytes ''123456789''"
    by (simp add: ascii_bytes_def)
  show ?thesis
    using h crc32_check_value [OF h] by simp
qed

section \<open>Binary Record Codec: proofs\<close>

lemma length_le_bytes [simp]: "length (le_bytes n v) = n"
  by (induction n arbitrary: v) simp_all

lemma le_val_le_bytes: "0 \<le> v \<Longrightarrow> v < 256 ^ n \<Longrightarrow> le_val (le_bytes n v) = v"
proof (induction n arbitrary: v)
  case 0
  then show ?case by simp
next
  case (Suc n)
  have "0 \<le> v div 256" "v div 256 < 256 ^ n"
    using Suc.prems by (simp_all add: div_less_iff_less_mult mult.commute)
  then have "le_val (le_bytes n (v div 256)) = v div 256"
    by (rule Suc.IH)
  moreover have "uint (word_of_int v :: byte) = v mod 256"
    by (simp add: uint_word_of_int take_bit_eq_mod)
  ultimately show ?case by simp
qed

lemma length_enc [simp]: "length (enc t v) = TypeSizes t"
  by (simp add: enc_def)

lemma buf_write_fits:
  "fits t v \<Longrightarrow> offset + TypeSizes t \<le> length buf \<Longrightarrow>
   buf_write t (Some v) offset buf = Inr (put_bytes offset (enc t v) buf, offset + TypeSizes t)"
  by (cases t; cases v) (simp_all add: writeUIntLE_def writeBigUInt64LE_def enc_def)

lemma buf_write_default:
  "t \<noteq> u64 \<Longrightarrow> offset + TypeSizes t \<le> length buf \<Longrightarrow>
   buf_write t None offset buf = Inr (put_bytes offset (enc t (Defaults t)) buf, offset + TypeSizes t)"
  by (cases t) (simp_all add: writeUIntLE_def enc_def)

lemma buf_read_enc:
  "fits t v \<Longrightarrow> buf_read t (pre @ enc t v @ post) (length pre) = Inr v"
  by (cases t; cases v)
     (simp_all add: readUIntLE_def readBigUInt64LE_def enc_def le_val_le_bytes)

lemma put_bytes_put_bytes:
  "p + length a + length b \<le> length buf \<Longrightarrow>
   put_bytes (p + length a) b (put_bytes p a buf) = put_bytes p (a @ b) buf"
proof -
  assume le: "p + length a + length b \<le> length buf"
  then have "length (take p buf) = p"
    by simp
  then have "take (p + length a) (take p buf @ a @ drop (p + length a) buf) = take p buf @ a"
    by simp
  moreover have "drop (p + length a + length b) (take p buf @ a @ drop (p + length a) buf)
      = drop (p + length a + length b) buf"
    using le by (simp add: add.commute)
  ultimately show ?thesis
    by (simp add: put_bytes_def add.assoc)
qed

lemma length_put_bytes [simp]: "p + length a \<le> length buf \<Longrightarrow> length (put_bytes p a buf) = length buf"
  by (simp add: put_bytes_def)

lemma Struct_forEach_Inr:
  "distinct (map fst def) \<Longrightarrow> set (map fst def) \<inter> set (map fst (entries s)) = {} \<Longrightarrow>
   Struct_forEach def d s =
     Inr (s\<lparr>entryOrder := entryOrder s @ map fst def,
            entries := entries s @ initial_entries def d\<rparr>)"
proof (induction def arbitrary: s)
  case Nil
  show ?case by (simp add: initial_entries_def)
next
  case (Cons f def)
  obtain name type literal where f: "f = (name, type, literal)"
    by (cases f)
  let ?s' = "s\<lparr>entryOrder := entryOrder s @ [name],
                entries := entries s @ [(name, type, initial_value d f)]\<rparr>"
  have add: "addEntry s name type (valueToUse d name literal) = Inr ?s'"
    using Cons.prems by (auto simp: addEntry_def f initial_value_def)
  have "Struct_forEach def d ?s' =
      Inr (?s'\<lparr>entryOrder := entryOrder ?s' @ map fst def,
                entries := entries ?s' @ initial_entries def d\<rparr>)"
    using Cons.prems by (intro Cons.IH) (auto simp: f)
  then show ?case
    by (simp add: f add initial_entries_def)
qed

lemma Struct_forEach_Inl:
  "\<not> (distinct (map fst def) \<and> set (map fst def) \<inter> set (map fst (entries s)) = {}) \<Longrightarrow>
   Struct_forEach def d s = Inl TypeError"
proof (induction def arbitrary: s)
  case Nil
  then show ?case by simp
next
  case (Cons f def)
  obtain name type literal where f: "f = (name, type, literal)"
    by (cases f)
  show ?case
  proof (cases "name \<in> set (map fst (entries s))")
    case True
    then show ?thesis by (simp add: f addEntry_def)
  next
    case False
    let ?s' = "s\<lparr>entryOrder := entryOrder s @ [name],
                  entries := entries s @ [(name, type, initial_value d f)]\<rparr>"
    have add: "addEntry s name type (valueToUse d name literal) = Inr ?s'"
      using False by (auto simp: addEntry_def f initial_value_def)
    have "\<not> (distinct (map fst def) \<and> set (map fst def) \<inter> set (map fst (entries ?s')) = {})"
      using Cons.prems False by (auto simp: f)
    then have "Struct_forEach def d ?s' = Inl TypeError"
      by (rule Cons.IH)
    then show ?thesis by (simp add: f add)
  qed
qed

lemma Struct_new_eq:
  "Struct_new def d =
     (if distinct (map fst def)
      then Inr \<lparr>entryOrder = map fst def, entries = initial_entries def d\<rparr>
      else Inl TypeError)"
  by (simp add: Struct_new_def Struct_forEach_Inr Struct_forEach_Inl)

lemma enc3_simp [simp]: "enc3 (n, t, v) = enc t v"
  by (simp add: enc3_def)

lemma fits3_simp [simp]: "fits3 (n, t, v) = fits t v"
  by (simp add: fits3_def)

lemma initial_entries_Nil [simp]: "initial_entries [] d = []"
  by (simp add: initial_entries_def)

lemma initial_entries_Cons [simp]:
  "initial_entries ((n, t, l) # def) d = (n, t, initial_value d (n, t, l)) # initial_entries def d"
  by (simp add: initial_entries_def)

lemma length_concat_enc3:
  "length (concat (map enc3 es)) = sum_list (map (\<lambda>(name, type, value). TypeSizes type) es)"
  by (induction es) auto

lemma fits_BigInt: "fits t v \<Longrightarrow> (if t = u64 then BigInt v else v) = v"
  by (cases t; cases v) simp_all

lemma writeToBuffer_loop_ok:
  "distinct (map fst (entries s)) \<Longrightarrow> set todo \<subseteq> set (entries s) \<Longrightarrow> list_all fits3 todo \<Longrightarrow>
   bytePos + length (concat (map enc3 todo)) \<le> length buf \<Longrightarrow>
   writeToBuffer_loop s (map fst todo) buf bytePos =
     Inr (put_bytes bytePos (concat (map enc3 todo)) buf, bytePos + length (concat (map enc3 todo)))"
proof (induction todo arbitrary: buf bytePos)
  case Nil
  show ?case by (simp add: put_bytes_def)
next
  case (Cons e todo)
  obtain n t v where e: "e = (n, t, v)"
    by (cases e)
  have look: "map_of (entries s) n = Some (t, v)"
    using Cons.prems(1,2) by (simp add: e)
  have fit: "fits t v"
    using Cons.prems(3) by (simp add: e)
  have len: "bytePos + TypeSizes t + length (concat (map enc3 todo)) \<le> length buf"
    using Cons.prems(4) by (simp add: e)
  then have wr: "buf_write t (Some v) bytePos buf
      = Inr (put_bytes bytePos (enc t v) buf, bytePos + TypeSizes t)"
    by (intro buf_write_fits fit) simp
  have "writeToBuffer_loop s (map fst todo) (put_bytes bytePos (enc t v) buf) (bytePos + TypeSizes t)
      = Inr (put_bytes (bytePos + TypeSizes t) (concat (map enc3 todo)) (put_bytes bytePos (enc t v) buf),
             bytePos + TypeSizes t + length (concat (map enc3 todo)))"
    using Cons.prems len by (intro Cons.IH) simp_all
  moreover have "put_bytes (bytePos + TypeSizes t) (concat (map enc3 todo)) (put_bytes bytePos (enc t v) buf)
      = put_bytes bytePos (enc t v @ concat (map enc3 todo)) buf"
    using put_bytes_put_bytes [of bytePos "enc t v" "concat (map enc3 todo)" buf] len by simp
  ultimately show ?case
    by (simp add: e look fits_BigInt [OF fit] wr add.assoc)
qed

lemma fits_Defaults: "fits t (Defaults t)"
  by (cases t) simp_all

lemma field_ok_fits: "field_ok d (n, t, l) \<Longrightarrow> fits t (initial_value d (n, t, l))"
  by (auto simp: field_ok_def initial_value_def fits_Defaults split: option.splits)

lemma fits3_initial_entries: "list_all (field_ok d) def \<Longrightarrow> list_all fits3 (initial_entries def d)"
  by (induction def) (auto simp: field_ok_fits)

lemma createBufferForStruct_loop_ok:
  "list_all (field_ok d) def \<Longrightarrow> list_all (field_given d) def \<Longrightarrow>
   bytePos + length (concat (map enc3 (initial_entries def d))) \<le> length buf \<Longrightarrow>
   createBufferForStruct_loop def d buf bytePos =
     Inr (put_bytes bytePos (concat (map enc3 (initial_entries def d))) buf,
          bytePos + length (concat (map enc3 (initial_entries def d))))"
proof (induction def arbitrary: buf bytePos)
  case Nil
  show ?case by (simp add: put_bytes_def)
next
  case (Cons f def)
  obtain n t l where f: "f = (n, t, l)"
    by (cases f)
  let ?v = "initial_value d f"
  let ?rest = "concat (map enc3 (initial_entries def d))"
  have len: "bytePos + TypeSizes t + length ?rest \<le> length buf"
    using Cons.prems(3) by (simp add: f)
  have wr: "buf_write t (valueToUse d n l) bytePos buf
      = Inr (put_bytes bytePos (enc t ?v) buf, bytePos + TypeSizes t)"
  proof (cases "valueToUse d n l")
    case None
    then have "t \<noteq> u64"
      using Cons.prems(2) by (simp add: f field_given_def)
    then show ?thesis
      using len by (simp add: None buf_write_default f initial_value_def)
  next
    case (Some v)
    then have "fits t v"
      using Cons.prems(1) by (simp add: f field_ok_def)
    then show ?thesis
      using len by (simp add: Some buf_write_fits f initial_value_def)
  qed
  have "createBufferForStruct_loop def d (put_bytes bytePos (enc t ?v) buf) (bytePos + TypeSizes t)
      = Inr (put_bytes (bytePos + TypeSizes t) ?rest (put_bytes bytePos (enc t ?v) buf),
             bytePos + TypeSizes t + length ?rest)"
    using Cons.prems len by (intro Cons.IH) simp_all
  moreover have "put_bytes (bytePos + TypeSizes t) ?rest (put_bytes bytePos (enc t ?v) buf)
      = put_bytes bytePos (enc t ?v @ ?rest) buf"
    using put_bytes_put_bytes [of bytePos "enc t ?v" ?rest buf] len by simp
  ultimately show ?case
    by (simp add: f wr add.assoc)
qed

lemma readFromBuffer_loop_total:
  "bytePos + sum_list (map (\<lambda>(name, type, value). TypeSizes type) todo) \<le> length buffer \<Longrightarrow>
   \<exists>s'. readFromBuffer_loop todo s buffer bytePos =
     Inr (s', bytePos + sum_list (map (\<lambda>(name, type, value). TypeSizes type) todo))"
proof (induction todo arbitrary: s bytePos)
  case Nil
  show ?case by simp
next
  case (Cons e todo)
  obtain n t v where e: "e = (n, t, v)"
    by (cases e)
  have "bytePos + TypeSizes t \<le> length buffer"
    using Cons.prems by (simp add: e)
  then obtain r where rd: "buf_read t buffer bytePos = Inr r"
    by (cases t) (simp_all add: readUIntLE_def readBigUInt64LE_def)
  have "\<exists>s'. readFromBuffer_loop todo (s\<lparr>entries := set_value n r (entries s)\<rparr>) buffer (bytePos + TypeSizes t)
      = Inr (s', bytePos + TypeSizes t + sum_list (map (\<lambda>(name, type, value). TypeSizes type) todo))"
    using Cons.prems by (intro Cons.IH) (simp add: e)
  then show ?case
    by (simp add: e rd add.assoc)
qed

lemma readFromBuffer_loop_values:
  "list_all2 (\<lambda>old e. fst old = fst e \<and> fst (snd old) = fst (snd e) \<and> fits3 e) todo new \<Longrightarrow>
   buffer = pre @ concat (map enc3 new) @ post \<Longrightarrow>
   readFromBuffer_loop todo s buffer (length pre) =
     Inr (s\<lparr>entries := store_all new (entries s)\<rparr>, length pre + length (concat (map enc3 new)))"
proof (induction todo new arbitrary: s pre rule: list_all2_induct)
  case Nil
  show ?case by (simp add: store_all_def)
next
  case (Cons old todo e new)
  obtain n t v where e: "e = (n, t, v)"
    by (cases e)
  obtain x where old: "old = (n, t, x)"
    using Cons.hyps(1) by (cases old) (simp add: e)
  have fit: "fits t v"
    using Cons.hyps(1) by (simp add: e)
  have buffer: "buffer = pre @ enc t v @ (concat (map enc3 new) @ post)"
    using Cons.prems by (simp add: e)
  have rd: "buf_read t buffer (length pre) = Inr v"
    unfolding buffer by (rule buf_read_enc [OF fit])
  have "buffer = (pre @ enc t v) @ concat (map enc3 new) @ post"
    using buffer by simp
  then have "readFromBuffer_loop todo (s\<lparr>entries := set_value n v (entries s)\<rparr>) buffer (length (pre @ enc t v))
      = Inr (s\<lparr>entries := set_value n v (entries s)\<rparr>
               \<lparr>entries := store_all new (entries (s\<lparr>entries := set_value n v (entries s)\<rparr>))\<rparr>,
             length (pre @ enc t v) + length (concat (map enc3 new)))"
    by (rule Cons.IH)
  then show ?case
    by (simp add: e old rd store_all_def add.assoc)
qed

lemma map_of_set_value:
  "map_of (set_value n v es) m =
     (if m = n then map_option (\<lambda>(t, x). (t, v)) (map_of es m) else map_of es m)"
  by (induction es) (auto simp: set_value_def)

lemma map_of_store_all_other:
  "m \<notin> fst ` set new \<Longrightarrow> map_of (store_all new es) m = map_of es m"
  by (induction new arbitrary: es) (auto simp: store_all_def map_of_set_value)

lemma map_of_store_all:
  "distinct (map fst new) \<Longrightarrow> (n, t, v) \<in> set new \<Longrightarrow> map_of es n = Some (t, x) \<Longrightarrow>
   map_of (store_all new es) n = Some (t, v)"
proof (induction new arbitrary: es x)
  case Nil
  then show ?case by simp
next
  case (Cons e new)
  obtain n1 t1 v1 where e: "e = (n1, t1, v1)"
    by (cases e)
  have step: "store_all (e # new) es = store_all new (set_value n1 v1 es)"
    by (simp add: store_all_def e)
  show ?case
  proof (cases "(n, t, v) = e")
    case True
    then have "n \<notin> fst ` set new"
      using Cons.prems(1) by (auto simp: e)
    then have "map_of (store_all new (set_value n1 v1 es)) n = map_of (set_value n1 v1 es) n"
      by (rule map_of_store_all_other)
    then show ?thesis
      unfolding step using True Cons.prems(3) by (simp add: e map_of_set_value)
  next
    case False
    then have mem: "(n, t, v) \<in> set new"
      using Cons.prems(2) by simp
    then have "n \<noteq> n1"
      using Cons.prems(1) by (force simp: e)
    then have "map_of (set_value n1 v1 es) n = Some (t, x)"
      using Cons.prems(3) by (simp add: map_of_set_value)
    then have "map_of (store_all new (set_value n1 v1 es)) n = Some (t, v)"
      using Cons.prems(1) mem by (intro Cons.IH) simp_all
    then show ?thesis unfolding step .
  qed
qed

lemma initial_entries_names [simp]: "map fst (initial_entries def d) = map fst def"
  by (simp add: initial_entries_def)

lemma size_initial_entries:
  "sum_list (map (\<lambda>(name, type, value). TypeSizes type) (initial_entries def d)) = byteSize def"
  by (induction def) (auto simp: byteSize_def)

lemma initial_entries_same_shape:
  "list_all (field_ok d) def \<Longrightarrow>
   list_all2 (\<lambda>old e. fst old = fst e \<and> fst (snd old) = fst (snd e) \<and> fits3 e)
     (initial_entries def d0) (initial_entries def d)"
  by (induction def) (auto simp: field_ok_fits)

lemma FromBuffer_encoded:
  assumes dist: "distinct (map fst def)"
    and ok: "list_all (field_ok d) def"
    and buf: "buf = pre @ concat (map enc3 (initial_entries def d)) @ post"
  shows "\<exists>s'. FromBuffer def buf (length pre) = Inr s'
           \<and> (\<forall>f\<in>set def. Struct_get s' (fst f) = Some (initial_value d f))"
proof -
  let ?s0 = "\<lparr>entryOrder = map fst def, entries = initial_entries def Map.empty\<rparr>"
  let ?new = "initial_entries def d"
  let ?s' = "?s0\<lparr>entries := store_all ?new (entries ?s0)\<rparr>"
  have new: "Struct_new def Map.empty = Inr ?s0"
    by (simp add: Struct_new_eq dist)
  have "readFromBuffer_loop (entries ?s0) ?s0 buf (length pre)
      = Inr (?s', length pre + length (concat (map enc3 ?new)))"
    using initial_entries_same_shape [OF ok] buf
    by (intro readFromBuffer_loop_values) simp_all
  then have dec: "FromBuffer def buf (length pre) = Inr ?s'"
    by (simp add: FromBuffer_def new readFromBuffer_def)
  have "Struct_get ?s' (fst f) = Some (initial_value d f)" if f: "f \<in> set def" for f
  proof -
    obtain n t l where f3: "f = (n, t, l)"
      by (cases f)
    have mem: "(n, t, initial_value d' f) \<in> set (initial_entries def d')" for d'
      using f by (force simp: initial_entries_def f3)
    have "(n, t, initial_value d f) \<in> set ?new"
      by (rule mem)
    moreover have "map_of (initial_entries def Map.empty) n = Some (t, initial_value Map.empty f)"
    proof (rule map_of_is_SomeI)
      show "distinct (map fst (initial_entries def Map.empty))"
        using dist by simp
      show "(n, t, initial_value Map.empty f) \<in> set (initial_entries def Map.empty)"
        by (rule mem)
    qed
    ultimately have "map_of (store_all ?new (initial_entries def Map.empty)) n
        = Some (t, initial_value d f)"
      using dist by (intro map_of_store_all) simp_all
    then show ?thesis
      by (simp add: Struct_get_def f3)
  qed
  with dec show ?thesis
    by blast
qed

lemma put_bytes_split:
  "offset + length bs \<le> length buf \<Longrightarrow>
   put_bytes offset bs buf = take offset buf @ bs @ drop (offset + length bs) buf
   \<and> length (take offset buf) = offset"
  by (simp add: put_bytes_def)

lemma indexOf_name_None: "indexOf_name xs name = None \<longleftrightarrow> name \<notin> set xs"
  by (induction xs) auto

lemma distinct_size_eq: "distinct (map fst def) \<Longrightarrow> spec_distinctSize def = byteSize def"
proof -
  assume dist: "distinct (map fst def)"
  have eq: "map (\<lambda>name. case map_of def name of None \<Rightarrow> 0 | Some (type, literal) \<Rightarrow> TypeSizes type)
          (map fst def)
      = map (\<lambda>(name, type, literal). TypeSizes type) def"
    using dist by (auto simp: map_of_is_SomeI [OF dist])
  show ?thesis
    unfolding spec_distinctSize_def byteSize_def distinct_remdups_id [OF dist] eq
    by (rule refl)
qed

text \<open>
  The claim C2 as stated fails: a CRC field given \<open>2^32\<close> cannot be encoded, by either
  encoder (the write throws a RangeError), so nothing is reproduced.
\<close>

theorem codec_roundtrip_counterexample:
  "Struct_new Structs_zip64DataDescriptor [''crc32'' \<mapsto> Num 0x100000000]
     = Inr \<lparr>entryOrder = [''signature'', ''crc32'', ''compressedSize'', ''uncompressedSize''],
            entries = [(''signature'', u32, Num 0x08074b50), (''crc32'', u32, Num 0x100000000),
                       (''compressedSize'', u64, Big 0), (''uncompressedSize'', u64, Big 0)]\<rparr>
   \<and> createBuffer \<lparr>entryOrder = [''signature'', ''crc32'', ''compressedSize'', ''uncompressedSize''],
            entries = [(''signature'', u32, Num 0x08074b50), (''crc32'', u32, Num 0x100000000),
                       (''compressedSize'', u64, Big 0), (''uncompressedSize'', u64, Big 0)]\<rparr> 0
     = Inl RangeError
   \<and> createBufferForStruct Structs_zip64DataDescriptor
        [''crc32'' \<mapsto> Num 0x100000000, ''compressedSize'' \<mapsto> Big 0, ''uncompressedSize'' \<mapsto> Big 0] 0 0
     = Inl RangeError"
  by (simp add: Struct_new_def Structs_zip64DataDescriptor_def addEntry_def valueToUse_def
      Signatures_dataDescriptor_def createBuffer_def writeToBuffer_def Struct_size_def
      Buffer_alloc_def writeUIntLE_def createBufferForStruct_def byteSize_def put_bytes_def)

text \<open>
  C2, as amended. For a record definition whose field names are plain (not the name of a
  member of \<open>Object.prototype\<close> or of \<open>Struct\<close>, not made of digits only) and pairwise
  distinct, and data in which every value supplied (or, for a field left out, its literal)
  is of the field's kind and range (an integral Number in \<open>0 .. 2^16 - 1\<close> or
  \<open>0 .. 2^32 - 1\<close> for a 2- or 4-byte field, a BigInt in \<open>0 .. 2^64 - 1\<close> for an 8-byte
  field): encoding with \<open>Struct.writeToBuffer\<close> at an offset that leaves room in the buffer,
  and decoding with \<open>Struct.readFromBuffer\<close> at the same offset, gives back every supplied
  value, and for every field left out its literal, or the zero of its width when it has
  none. The same holds for encoding with \<open>createBufferForStruct\<close> (on a definition that
  \<open>prepareStructs\<close> has prepared), provided every 8-byte field is supplied or has a literal.
\<close>

theorem codec_roundtrip:
  assumes "plain_names def" and "distinct (map fst def)" and "list_all (field_ok d) def"
  shows "(offset + byteSize def \<le> length buf0 \<longrightarrow>
           (\<exists>s buf s'. Struct_new def d = Inr s
              \<and> writeToBuffer s buf0 offset = Inr (buf, byteSize def)
              \<and> FromBuffer def buf offset = Inr s'
              \<and> (\<forall>(name, type, literal)\<in>set def. Struct_get s' name =
                    Some (case d name of Some v \<Rightarrow> v
                          | None \<Rightarrow> (case literal of Some v \<Rightarrow> v | None \<Rightarrow> Defaults type)))))
       \<and> (list_all (field_given d) def \<longrightarrow>
           (\<exists>buf s'. createBufferForStruct def d extraSpaceAfter extraSpaceBefore
                 = Inr (buf, extraSpaceBefore + byteSize def)
              \<and> FromBuffer def buf extraSpaceBefore = Inr s'
              \<and> (\<forall>(name, type, literal)\<in>set def. Struct_get s' name =
                    Some (case d name of Some v \<Rightarrow> v
                          | None \<Rightarrow> (case literal of Some v \<Rightarrow> v | None \<Rightarrow> Defaults type)))))"
proof -
  note dist = assms(2) and ok = assms(3)
  let ?bytes = "concat (map enc3 (initial_entries def d))"
  have len: "length ?bytes = byteSize def"
    by (simp add: length_concat_enc3 size_initial_entries)
  have iv: "initial_value d (name, type, literal) =
      (case d name of Some v \<Rightarrow> v | None \<Rightarrow> (case literal of Some v \<Rightarrow> v | None \<Rightarrow> Defaults type))"
    for name type literal
    by (simp add: initial_value_def valueToUse_def split: option.splits)
  have decode: "\<exists>s'. FromBuffer def (put_bytes off ?bytes b) off = Inr s'
      \<and> (\<forall>(name, type, literal)\<in>set def. Struct_get s' name =
            Some (case d name of Some v \<Rightarrow> v
                  | None \<Rightarrow> (case literal of Some v \<Rightarrow> v | None \<Rightarrow> Defaults type)))"
    if "off + byteSize def \<le> length b" for off b
  proof -
    have "put_bytes off ?bytes b = take off b @ ?bytes @ drop (off + length ?bytes) b"
      and "length (take off b) = off"
      using that put_bytes_split [of off ?bytes b] by (simp_all add: len)
    then obtain s' where "FromBuffer def (put_bytes off ?bytes b) off = Inr s'"
      and "\<forall>f\<in>set def. Struct_get s' (fst f) = Some (initial_value d f)"
      using FromBuffer_encoded [OF dist ok, of "put_bytes off ?bytes b" "take off b" "drop (off + length ?bytes) b"]
      by auto
    then show ?thesis
      by (auto simp: iv [symmetric])
  qed
  have part1: "\<exists>s buf s'. Struct_new def d = Inr s
              \<and> writeToBuffer s buf0 offset = Inr (buf, byteSize def)
              \<and> FromBuffer def buf offset = Inr s'
              \<and> (\<forall>(name, type, literal)\<in>set def. Struct_get s' name =
                    Some (case d name of Some v \<Rightarrow> v
                          | None \<Rightarrow> (case literal of Some v \<Rightarrow> v | None \<Rightarrow> Defaults type)))"
    if le: "offset + byteSize def \<le> length buf0"
  proof -
    let ?s = "\<lparr>entryOrder = map fst def, entries = initial_entries def d\<rparr>"
    have new: "Struct_new def d = Inr ?s"
      by (simp add: Struct_new_eq dist)
    have "writeToBuffer_loop ?s (map fst (initial_entries def d)) buf0 offset
        = Inr (put_bytes offset ?bytes buf0, offset + length ?bytes)"
      using dist ok le by (intro writeToBuffer_loop_ok) (simp_all add: len fits3_initial_entries)
    then have wr: "writeToBuffer ?s buf0 offset = Inr (put_bytes offset ?bytes buf0, byteSize def)"
      by (simp add: writeToBuffer_def len)
    from decode [OF le] new wr show ?thesis
      by blast
  qed
  have part2: "\<exists>buf s'. createBufferForStruct def d extraSpaceAfter extraSpaceBefore
                 = Inr (buf, extraSpaceBefore + byteSize def)
              \<and> FromBuffer def buf extraSpaceBefore = Inr s'
              \<and> (\<forall>(name, type, literal)\<in>set def. Struct_get s' name =
                    Some (case d name of Some v \<Rightarrow> v
                          | None \<Rightarrow> (case literal of Some v \<Rightarrow> v | None \<Rightarrow> Defaults type)))"
    if given: "list_all (field_given d) def"
  proof -
    let ?b = "Buffer_alloc (extraSpaceBefore + byteSize def + extraSpaceAfter)"
    have le: "extraSpaceBefore + byteSize def \<le> length ?b"
      by (simp add: Buffer_alloc_def)
    have "createBufferForStruct_loop def d ?b extraSpaceBefore
        = Inr (put_bytes extraSpaceBefore ?bytes ?b, extraSpaceBefore + length ?bytes)"
      using ok given le by (intro createBufferForStruct_loop_ok) (simp_all add: len)
    then have "createBufferForStruct def d extraSpaceAfter extraSpaceBefore
        = Inr (put_bytes extraSpaceBefore ?bytes ?b, extraSpaceBefore + byteSize def)"
      by (simp add: createBufferForStruct_def len)
    with decode [OF le] show ?thesis
      by blast
  qed
  from part1 part2 show ?thesis
    by blast
qed

theorem codec_roundtrip_witness:
  "plain_names Structs_zip64DataDescriptor
   \<and> distinct (map fst Structs_zip64DataDescriptor)
   \<and> list_all (field_ok [''crc32'' \<mapsto> Num 0xCBF43926, ''uncompressedSize'' \<mapsto> Big 0x100000000])
        Structs_zip64DataDescriptor
   \<and> 3 + byteSize Structs_zip64DataDescriptor \<le> length (Buffer_alloc 30)
   \<and> list_all (field_given [''crc32'' \<mapsto> Num 0xCBF43926, ''uncompressedSize'' \<mapsto> Big 0x100000000,
                               ''compressedSize'' \<mapsto> Big 11])
        Structs_zip64DataDescriptor
   \<and> (\<exists>s buf s'.
         Struct_new Structs_zip64DataDescriptor
            [''crc32'' \<mapsto> Num 0xCBF43926, ''uncompressedSize'' \<mapsto> Big 0x100000000] = Inr s
         \<and> writeToBuffer s (Buffer_alloc 30) 3 = Inr (buf, 24)
         \<and> FromBuffer Structs_zip64DataDescriptor buf 3 = Inr s'
         \<and> Struct_get s' ''signature'' = Some (Num 0x08074b50)
         \<and> Struct_get s' ''crc32'' = Some (Num 0xCBF43926)
         \<and> Struct_get s' ''compressedSize'' = Some (Big 0)
         \<and> Struct_get s' ''uncompressedSize'' = Some (Big 0x100000000))
   \<and> (\<exists>buf s'.
         createBufferForStruct Structs_zip64DataDescriptor
            [''crc32'' \<mapsto> Num 0xCBF43926, ''uncompressedSize'' \<mapsto> Big 0x100000000,
             ''compressedSize'' \<mapsto> Big 11] 2 5 = Inr (buf, 29)
         \<and> FromBuffer Structs_zip64DataDescriptor buf 5 = Inr s'
         \<and> Struct_get s' ''signature'' = Some (Num 0x08074b50)
         \<and> Struct_get s' ''crc32'' = Some (Num 0xCBF43926)
         \<and> Struct_get s' ''compressedSize'' = Some (Big 11)
         \<and> Struct_get s' ''uncompressedSize'' = Some (Big 0x100000000))"
proof -
  let ?d1 = "[''crc32'' \<mapsto> Num 0xCBF43926, ''uncompressedSize'' \<mapsto> Big 0x100000000]"
  let ?d2 = "[''crc32'' \<mapsto> Num 0xCBF43926, ''uncompressedSize'' \<mapsto> Big 0x100000000,
              ''compressedSize'' \<mapsto> Big 11]"
  have h0: "plain_names Structs_zip64DataDescriptor"
    by (simp add: Structs_zip64DataDescriptor_def plain_names_def plain_name_def
        Object_prototype_names_def Struct_member_names_def digits_only_def)
  have h1: "distinct (map fst Structs_zip64DataDescriptor)"
    by (simp add: Structs_zip64DataDescriptor_def)
  have h2: "list_all (field_ok ?d1) Structs_zip64DataDescriptor"
    by (simp add: Structs_zip64DataDescriptor_def field_ok_def valueToUse_def
        Signatures_dataDescriptor_def)
  have h2': "list_all (field_ok ?d2) Structs_zip64DataDescriptor"
    by (simp add: Structs_zip64DataDescriptor_def field_ok_def valueToUse_def
        Signatures_dataDescriptor_def)
  have h3: "3 + byteSize Structs_zip64DataDescriptor \<le> length (Buffer_alloc 30)"
    by (simp add: Structs_zip64DataDescriptor_def byteSize_def Buffer_alloc_def)
  have h4: "list_all (field_given ?d2) Structs_zip64DataDescriptor"
    by (simp add: Structs_zip64DataDescriptor_def field_given_def valueToUse_def)
  have sz: "byteSize Structs_zip64DataDescriptor = 24"
    by (simp add: Structs_zip64DataDescriptor_def byteSize_def)
  have a: "\<exists>s buf s'.
         Struct_new Structs_zip64DataDescriptor ?d1 = Inr s
         \<and> writeToBuffer s (Buffer_alloc 30) 3 = Inr (buf, 24)
         \<and> FromBuffer Structs_zip64DataDescriptor buf 3 = Inr s'
         \<and> Struct_get s' ''signature'' = Some (Num 0x08074b50)
         \<and> Struct_get s' ''crc32'' = Some (Num 0xCBF43926)
         \<and> Struct_get s' ''compressedSize'' = Some (Big 0)
         \<and> Struct_get s' ''uncompressedSize'' = Some (Big 0x100000000)"
    using codec_roundtrip [OF h0 h1 h2, of 3 "Buffer_alloc 30" 0 0] h3
    by (simp add: sz) (simp add: Structs_zip64DataDescriptor_def Signatures_dataDescriptor_def)
  have b: "\<exists>buf s'.
         createBufferForStruct Structs_zip64DataDescriptor ?d2 2 5 = Inr (buf, 29)
         \<and> FromBuffer Structs_zip64DataDescriptor buf 5 = Inr s'
         \<and> Struct_get s' ''signature'' = Some (Num 0x08074b50)
         \<and> Struct_get s' ''crc32'' = Some (Num 0xCBF43926)
         \<and> Struct_get s' ''compressedSize'' = Some (Big 11)
         \<and> Struct_get s' ''uncompressedSize'' = Some (Big 0x100000000)"
    using codec_roundtrip [OF h0 h1 h2', of 0 "[]" 2 5] h4
    by (simp add: sz) (simp add: Structs_zip64DataDescriptor_def Signatures_dataDescriptor_def)
  from h0 h1 h2 h3 h4 a b show ?thesis
    by (intro conjI)
qed

text \<open>
  The claim C8 as stated fails: for a name that the definition does not declare,
  \<open>sizeFrom\<close> and \<open>sizeUntil\<close> return \<open>null\<close>; no error is raised.
\<close>

theorem sizeFrom_unknown_counterexample:
  "Struct_new Structs_zip64EndOfCentralDirectoryLocator Map.empty
     = Inr \<lparr>entryOrder = [''signature'', ''numDisksBeforeStart'', ''relativeOffset'', ''totalNumberOfDisks''],
            entries = [(''signature'', u32, Num 0x07064b50), (''numDisksBeforeStart'', u32, Num 0),
                       (''relativeOffset'', u64, Big 0), (''totalNumberOfDisks'', u32, Num 1)]\<rparr>
   \<and> sizeFrom \<lparr>entryOrder = [''signature'', ''numDisksBeforeStart'', ''relativeOffset'', ''totalNumberOfDisks''],
            entries = [(''signature'', u32, Num 0x07064b50), (''numDisksBeforeStart'', u32, Num 0),
                       (''relativeOffset'', u64, Big 0), (''totalNumberOfDisks'', u32, Num 1)]\<rparr>
        ''fileComment'' False = Inr None
   \<and> sizeUntil \<lparr>entryOrder = [''signature'', ''numDisksBeforeStart'', ''relativeOffset'', ''totalNumberOfDisks''],
            entries = [(''signature'', u32, Num 0x07064b50), (''numDisksBeforeStart'', u32, Num 0),
                       (''relativeOffset'', u64, Big 0), (''totalNumberOfDisks'', u32, Num 1)]\<rparr>
        ''fileComment'' False = Inr None"
  by (simp add: Struct_new_def Structs_zip64EndOfCentralDirectoryLocator_def addEntry_def
      valueToUse_def Signatures_zip64EndOfCentralDirectoryLocator_def sizeFrom_def sizeUntil_def)

text \<open>
  C8, as amended. For a record definition of which a \<open>Struct\<close> can be constructed (its
  field names are plain, that is not the name of a member of \<open>Object.prototype\<close> or of
  \<open>Struct\<close> and not made of digits only, and pairwise distinct) and a field name that it
  does not declare, \<open>sizeFrom\<close> and \<open>sizeUntil\<close> of a \<open>Struct\<close> of that definition return
  \<open>null\<close>, with either value of \<open>inclusive\<close>; they raise no error.
\<close>

theorem sizeFrom_sizeUntil_unknown_name:
  "plain_names def \<Longrightarrow> Struct_new def d = Inr s \<Longrightarrow> name \<notin> set (map fst def) \<Longrightarrow>
   sizeFrom s name inclusive = Inr None \<and> sizeUntil s name inclusive = Inr None"
proof -
  assume new: "Struct_new def d = Inr s" and name: "name \<notin> set (map fst def)"
  have "entryOrder s = map fst def"
    using new by (auto simp: Struct_new_eq split: if_splits)
  then have "indexOf_name (entryOrder s) name = None"
    using name by (simp add: indexOf_name_None)
  then show ?thesis
    by (simp add: sizeFrom_def sizeUntil_def)
qed

theorem sizeFrom_sizeUntil_unknown_name_witness:
  "plain_names [(''crc32'', u32, None)]
   \<and> Struct_new [(''crc32'', u32, None)] Map.empty
     = Inr \<lparr>entryOrder = [''crc32''], entries = [(''crc32'', u32, Num 0)]\<rparr>
   \<and> ''size'' \<notin> set (map fst [(''crc32'', u32, None :: jsval option)])
   \<and> sizeFrom \<lparr>entryOrder = [''crc32''], entries = [(''crc32'', u32, Num 0)]\<rparr> ''size'' True = Inr None
   \<and> sizeUntil \<lparr>entryOrder = [''crc32''], entries = [(''crc32'', u32, Num 0)]\<rparr> ''size'' True = Inr None"
proof -
  have h1: "Struct_new [(''crc32'', u32, None)] Map.empty
     = Inr \<lparr>entryOrder = [''crc32''], entries = [(''crc32'', u32, Num 0)]\<rparr>"
    by (simp add: Struct_new_def addEntry_def valueToUse_def)
  have h2: "''size'' \<notin> set (map fst [(''crc32'', u32, None :: jsval option)])"
    by simp
  have h0: "plain_names [(''crc32'', u32, None)]"
    by (simp add: plain_names_def plain_name_def Object_prototype_names_def
        Struct_member_names_def digits_only_def)
  from h0 h1 h2 sizeFrom_sizeUntil_unknown_name [OF h0 h1 h2, of True] show ?thesis
    by (intro conjI) simp_all
qed

text \<open>
  The claim C9 as stated fails for the definition it names: \<open>zip64EndOfCentralDirectoryRecord\<close>
  lists \<open>numEntries\<close> twice, so the constructor of \<open>Struct\<close> throws a TypeError when
  \<open>addEntry\<close> defines the property a second time (the first time it shadows the getter
  \<open>numEntries\<close> of the class, which the constructor does not use). No \<open>Struct\<close> of this
  definition exists and no decode consumes 48 bytes.
\<close>

theorem decode_zip64_end_record_counterexample:
  "Struct_new Structs_zip64EndOfCentralDirectoryRecord Map.empty = Inl TypeError
   \<and> FromBuffer Structs_zip64EndOfCentralDirectoryRecord (Buffer_alloc 56) 0 = Inl TypeError"
  by (simp add: Struct_new_eq FromBuffer_def Structs_zip64EndOfCentralDirectoryRecord_def)

text \<open>
  C9, as amended. For every record definition with plain field names (not the name of a
  member of \<open>Object.prototype\<close> or of \<open>Struct\<close>, not made of digits only) of which a
  \<open>Struct\<close> can be constructed,
  \<open>readFromBuffer\<close> on a buffer with enough bytes after the offset consumes exactly the
  sum of the widths of the (distinct) field names; \<open>Struct.size\<close> is the same sum and so is
  the \<open>byteSize\<close> of the definition. The \<open>zip64EndOfCentralDirectoryRecord\<close> definition
  lists \<open>numEntries\<close> twice: its encoded wire record (\<open>byteSize\<close>) has 56 bytes, and the
  widths of its distinct field names add up to 48.
\<close>

theorem decode_consumes_struct_size:
  "(plain_names def \<and> Struct_new def d = Inr s \<and> offset + Struct_size s \<le> length buffer \<longrightarrow>
      (\<exists>s'. readFromBuffer s buffer offset = Inr (s', spec_distinctSize def))
      \<and> Struct_size s = spec_distinctSize def
      \<and> byteSize def = spec_distinctSize def)
   \<and> byteSize Structs_zip64EndOfCentralDirectoryRecord = 56
   \<and> spec_distinctSize Structs_zip64EndOfCentralDirectoryRecord = 48"
proof -
  have "(\<exists>s'. readFromBuffer s buffer offset = Inr (s', spec_distinctSize def))
      \<and> Struct_size s = spec_distinctSize def \<and> byteSize def = spec_distinctSize def"
    if new: "Struct_new def d = Inr s" and le: "offset + Struct_size s \<le> length buffer"
  proof -
    have dist: "distinct (map fst def)" and s: "entries s = initial_entries def d"
      using new by (auto simp: Struct_new_eq split: if_splits)
    have size: "Struct_size s = byteSize def"
      by (simp add: Struct_size_def s size_initial_entries)
    obtain s' where "readFromBuffer_loop (entries s) s buffer offset = Inr (s', offset + Struct_size s)"
      using readFromBuffer_loop_total [of offset "entries s" buffer s] le
      by (auto simp: Struct_size_def)
    then have "readFromBuffer s buffer offset = Inr (s', Struct_size s)"
      by (simp add: readFromBuffer_def)
    then show ?thesis
      by (simp add: size distinct_size_eq [OF dist])
  qed
  moreover have "byteSize Structs_zip64EndOfCentralDirectoryRecord = 56"
    by (simp add: byteSize_def Structs_zip64EndOfCentralDirectoryRecord_def)
  moreover have "spec_distinctSize Structs_zip64EndOfCentralDirectoryRecord = 48"
    by (simp add: spec_distinctSize_def Structs_zip64EndOfCentralDirectoryRecord_def)
  ultimately show ?thesis
    by blast
qed

theorem decode_consumes_struct_size_witness:
  "plain_names Structs_zip64EndOfCentralDirectoryLocator
   \<and> Struct_new Structs_zip64EndOfCentralDirectoryLocator [''relativeOffset'' \<mapsto> Big 98]
     = Inr \<lparr>entryOrder = [''signature'', ''numDisksBeforeStart'', ''relativeOffset'', ''totalNumberOfDisks''],
            entries = [(''signature'', u32, Num 0x07064b50), (''numDisksBeforeStart'', u32, Num 0),
                       (''relativeOffset'', u64, Big 98), (''totalNumberOfDisks'', u32, Num 1)]\<rparr>
   \<and> (\<exists>s'. readFromBuffer
         \<lparr>entryOrder = [''signature'', ''numDisksBeforeStart'', ''relativeOffset'', ''totalNumberOfDisks''],
          entries = [(''signature'', u32, Num 0x07064b50), (''numDisksBeforeStart'', u32, Num 0),
                     (''relativeOffset'', u64, Big 98), (''totalNumberOfDisks'', u32, Num 1)]\<rparr>
         (Buffer_alloc 30) 10 = Inr (s', 20))
   \<and> byteSize Structs_zip64EndOfCentralDirectoryLocator = 20"
proof -
  let ?s = "\<lparr>entryOrder = [''signature'', ''numDisksBeforeStart'', ''relativeOffset'', ''totalNumberOfDisks''],
            entries = [(''signature'', u32, Num 0x07064b50), (''numDisksBeforeStart'', u32, Num 0),
                       (''relativeOffset'', u64, Big 98), (''totalNumberOfDisks'', u32, Num 1)]\<rparr>"
  have h1: "Struct_new Structs_zip64EndOfCentralDirectoryLocator [''relativeOffset'' \<mapsto> Big 98] = Inr ?s"
    by (simp add: Struct_new_def Structs_zip64EndOfCentralDirectoryLocator_def addEntry_def
        valueToUse_def Signatures_zip64EndOfCentralDirectoryLocator_def)
  have h2: "10 + Struct_size ?s \<le> length (Buffer_alloc 30)"
    by (simp add: Struct_size_def Buffer_alloc_def)
  have sz: "spec_distinctSize Structs_zip64EndOfCentralDirectoryLocator = 20"
    by (simp add: spec_distinctSize_def Structs_zip64EndOfCentralDirectoryLocator_def)
  have h0: "plain_names Structs_zip64EndOfCentralDirectoryLocator"
    by (simp add: Structs_zip64EndOfCentralDirectoryLocator_def plain_names_def plain_name_def
        Object_prototype_names_def Struct_member_names_def digits_only_def)
  from decode_consumes_struct_size
      [of Structs_zip64EndOfCentralDirectoryLocator "[''relativeOffset'' \<mapsto> Big 98]" ?s 10 "Buffer_alloc 30"]
    h0 h1 h2
  show ?thesis
    by (simp add: sz)
qed

section \<open>Archive Writer: proofs\<close>

lemma enc2_simp [simp]: "enc2 (t, v) = enc t v"
  by (simp add: enc2_def)

lemma fits2_simp [simp]: "fits2 (t, v) = fits t v"
  by (simp add: fits2_def)

lemma write_all_ok:
  "list_all fits2 ws \<Longrightarrow> bytesWritten + length (concat (map enc2 ws)) \<le> length buf \<Longrightarrow>
   write_all ws buf bytesWritten =
     Inr (put_bytes bytesWritten (concat (map enc2 ws)) buf,
          bytesWritten + length (concat (map enc2 ws)))"
proof (induction ws arbitrary: buf bytesWritten)
  case Nil
  show ?case by (simp add: put_bytes_def)
next
  case (Cons f ws)
  obtain t v where f: "f = (t, v)"
    by (cases f)
  let ?rest = "concat (map enc2 ws)"
  have fit: "fits t v"
    using Cons.prems(1) by (simp add: f)
  have len: "bytesWritten + TypeSizes t + length ?rest \<le> length buf"
    using Cons.prems(2) by (simp add: f)
  then have wr: "buf_write t (Some v) bytesWritten buf
      = Inr (put_bytes bytesWritten (enc t v) buf, bytesWritten + TypeSizes t)"
    by (intro buf_write_fits fit) simp
  have "write_all ws (put_bytes bytesWritten (enc t v) buf) (bytesWritten + TypeSizes t)
      = Inr (put_bytes (bytesWritten + TypeSizes t) ?rest (put_bytes bytesWritten (enc t v) buf),
             bytesWritten + TypeSizes t + length ?rest)"
    using Cons.prems len by (intro Cons.IH) simp_all
  moreover have "put_bytes (bytesWritten + TypeSizes t) ?rest (put_bytes bytesWritten (enc t v) buf)
      = put_bytes bytesWritten (enc t v @ ?rest) buf"
    using put_bytes_put_bytes [of bytesWritten "enc t v" ?rest buf] len by simp
  ultimately show ?case
    by (simp add: f wr add.assoc)
qed

lemma put_bytes_whole: "length bs = length buf \<Longrightarrow> put_bytes 0 bs buf = bs"
  by (simp add: put_bytes_def)

lemma write_all_fill:
  "list_all fits2 ws \<Longrightarrow> length (concat (map enc2 ws)) = n \<Longrightarrow>
   write_all ws (Buffer_alloc n) 0 = Inr (concat (map enc2 ws), n)"
  using write_all_ok [of ws 0 "Buffer_alloc n"]
  by (simp add: Buffer_alloc_def put_bytes_whole)

lemma length_extra_bytes: "length (extra_bytes z) = 4 + numKeys z * 8"
  by (simp add: extra_bytes_def numKeys_def split: option.splits)

lemma createZIP64ExtraField_ok:
  assumes "in_u64 (z_uncompressedSize z)" "in_u64 (z_compressedSize z)"
    "in_u64 (z_relativeOffsetOfLocalHeader z)"
  shows "createZIP64ExtraField z True = Inr (extra_bytes z)"
proof -
  let ?ws = "[(u16, Num 0x0001), (u16, Num (int (numKeys z * 8)))]
            @ (case z_uncompressedSize z of None \<Rightarrow> []
               | Some v \<Rightarrow> [(u64, BigInt (Num (if True then v else 0)))])
            @ (case z_compressedSize z of None \<Rightarrow> []
               | Some v \<Rightarrow> [(u64, BigInt (Num (if True then v else 0)))])
            @ (case z_relativeOffsetOfLocalHeader z of None \<Rightarrow> [] | Some v \<Rightarrow> [(u64, BigInt (Num v))])"
  have k: "numKeys z \<le> 3"
    by (simp add: numKeys_def)
  have fit: "list_all fits2 ?ws"
    using assms k by (auto simp: in_u64_def split: option.splits)
  have bytes: "concat (map enc2 ?ws) = extra_bytes z"
    by (simp add: extra_bytes_def enc_def split: option.splits)
  have len: "length (concat (map enc2 ?ws)) = 4 + numKeys z * 8"
    unfolding bytes by (rule length_extra_bytes)
  have w: "write_all ?ws (Buffer_alloc (4 + numKeys z * 8)) 0 = Inr (extra_bytes z, 4 + numKeys z * 8)"
    using write_all_fill [OF fit len] unfolding bytes .
  show ?thesis
    unfolding createZIP64ExtraField_def Let_def w by simp
qed

lemma moved_fields_central:
  "moved_fields fi True =
     (\<lparr>z_uncompressedSize = (if sizes_overflow fi then Some (uncompressedSize fi) else None),
       z_compressedSize = (if sizes_overflow fi then Some (compressedSize fi) else None),
       z_relativeOffsetOfLocalHeader =
         (if offset_overflow fi then Some (relativeOffsetOfLocalHeader fi) else None)\<rparr>,
      fi\<lparr>uncompressedSize := (if sizes_overflow fi then 0xffffffff else uncompressedSize fi),
         compressedSize := (if sizes_overflow fi then 0xffffffff else compressedSize fi),
         relativeOffsetOfLocalHeader :=
           (if offset_overflow fi then 0xffffffff else relativeOffsetOfLocalHeader fi)\<rparr>)"
  by (simp add: moved_fields_def promote_sizes_def promote_offset_def sizes_overflow_def
      offset_overflow_def)

lemma length_Buffer_from [simp]: "length (Buffer_from s) = length s"
  by (simp add: Buffer_from_def)

lemma Buffer_from_Nil [simp]: "Buffer_from [] = []"
  by (simp add: Buffer_from_def)

lemma length_header_fields_central:
  "length (concat (map enc2 (header_fields fi True n e c))) = 46"
  by (simp add: header_fields_def)

lemma put_bytes_zeros:
  "length pre = p \<Longrightarrow> length bs \<le> m \<Longrightarrow>
   put_bytes p bs (pre @ replicate m 0) = (pre @ bs) @ replicate (m - length bs) 0"
  by (simp add: put_bytes_def)

lemma Buffer_copy_zeros:
  "length pre = p \<Longrightarrow> length bs \<le> m \<Longrightarrow>
   Buffer_copy bs (pre @ replicate m 0) p = ((pre @ bs) @ replicate (m - length bs) 0, length bs)"
  by (simp add: Buffer_copy_def put_bytes_zeros)

lemma createFileHeader_central:
  assumes ok: "entry_ok fi"
  shows "createFileHeader fi True = Inr (central_header_bytes fi)"
proof -
  obtain z fi' where mf: "moved_fields fi True = (z, fi')"
    by (cases "moved_fields fi True")
  have z: "z = \<lparr>z_uncompressedSize = (if sizes_overflow fi then Some (uncompressedSize fi) else None),
       z_compressedSize = (if sizes_overflow fi then Some (compressedSize fi) else None),
       z_relativeOffsetOfLocalHeader =
         (if offset_overflow fi then Some (relativeOffsetOfLocalHeader fi) else None)\<rparr>"
    and fi': "fi' = fi\<lparr>uncompressedSize := (if sizes_overflow fi then 0xffffffff else uncompressedSize fi),
         compressedSize := (if sizes_overflow fi then 0xffffffff else compressedSize fi),
         relativeOffsetOfLocalHeader :=
           (if offset_overflow fi then 0xffffffff else relativeOffsetOfLocalHeader fi)\<rparr>"
    using mf by (simp_all add: moved_fields_central)
  let ?extra = "if numKeys z > 0 then extra_bytes z else []"
  let ?n = "length (fileName fi)"
  let ?c = "length (fileComment fi)"
  let ?fixed = "concat (map enc2 (header_fields fi' True ?n (length ?extra) ?c))"
  have ex: "(if numKeys z > 0
               then (case createZIP64ExtraField z True of Inl e \<Rightarrow> Inl e | Inr h \<Rightarrow> Inr (Some h))
               else Inr None) = Inr (if numKeys z > 0 then Some (extra_bytes z) else None)"
    using ok by (simp add: createZIP64ExtraField_ok z in_u64_def entry_ok_def)
  have elen: "length ?extra \<le> 28"
    by (simp add: length_extra_bytes numKeys_def)
  have fit: "list_all fits2 (header_fields fi' True ?n (length ?extra) ?c)"
    using ok elen
    by (simp add: header_fields_def entry_ok_def fi' Signatures_centralDirectoryHeader_def
        sizes_overflow_def offset_overflow_def)
  have flen: "length ?fixed = 46"
    by (rule length_header_fields_central)
  let ?room = "?n + length ?extra + ?c"
  have alloc: "Buffer_alloc (46 + ?n + length ?extra + ?c) = [] @ replicate (46 + ?room) 0"
    by (simp add: Buffer_alloc_def add.assoc)
  have w: "write_all (header_fields fi' True ?n (length ?extra) ?c)
             (Buffer_alloc (46 + ?n + length ?extra + ?c)) 0
       = Inr (?fixed @ replicate ?room 0, 46)"
    using write_all_ok [OF fit, of 0 "Buffer_alloc (46 + ?n + length ?extra + ?c)"]
    by (simp add: flen alloc put_bytes_zeros del: append_Nil)
  have c1: "Buffer_copy (Buffer_from (fileName fi)) (?fixed @ replicate ?room 0) 46
      = ((?fixed @ Buffer_from (fileName fi)) @ replicate (length ?extra + ?c) 0, ?n)"
    using Buffer_copy_zeros [of ?fixed 46 "Buffer_from (fileName fi)" ?room] flen by simp
  have c2: "Buffer_copy ?extra ((?fixed @ Buffer_from (fileName fi)) @ replicate (length ?extra + ?c) 0) (46 + ?n)
      = (((?fixed @ Buffer_from (fileName fi)) @ ?extra) @ replicate ?c 0, length ?extra)"
    using Buffer_copy_zeros [of "?fixed @ Buffer_from (fileName fi)" "46 + ?n" ?extra "length ?extra + ?c"]
      flen by simp
  have c3: "Buffer_copy (Buffer_from (fileComment fi))
        ((((?fixed @ Buffer_from (fileName fi)) @ ?extra) @ replicate ?c 0)) (46 + ?n + length ?extra)
      = ((((?fixed @ Buffer_from (fileName fi)) @ ?extra) @ Buffer_from (fileComment fi)) @ [], ?c)"
    using Buffer_copy_zeros [of "(?fixed @ Buffer_from (fileName fi)) @ ?extra" "46 + ?n + length ?extra"
        "Buffer_from (fileComment fi)" ?c] flen by simp
  have comment: "fileComment fi' = fileComment fi"
    by (simp add: fi')
  show ?thesis
  proof (cases "numKeys z > 0")
    case True
    with w c1 c2 c3 ex show ?thesis
      by (simp add: createFileHeader_def central_header_bytes_def mf Let_def comment
          length_extra_bytes)
  next
    case False
    with w c1 c2 c3 ex show ?thesis
      by (simp add: createFileHeader_def central_header_bytes_def mf Let_def comment)
  qed
qed

lemma readUIntLE_skip:
  "length a \<le> off \<Longrightarrow> readUIntLE w (a @ b) off = readUIntLE w b (off - length a)"
  by (auto simp: readUIntLE_def)

lemma readBigUInt64LE_skip:
  "length a \<le> off \<Longrightarrow> readBigUInt64LE (a @ b) off = readBigUInt64LE b (off - length a)"
  by (auto simp: readBigUInt64LE_def)

lemma readUIntLE_hit:
  "0 \<le> v \<Longrightarrow> v < 256 ^ w \<Longrightarrow> readUIntLE w (le_bytes w v @ post) 0 = Inr (Num v)"
  by (simp add: readUIntLE_def le_val_le_bytes)

lemma readBigUInt64LE_hit:
  "0 \<le> v \<Longrightarrow> v < 256 ^ 8 \<Longrightarrow> readBigUInt64LE (le_bytes 8 v @ post) 0 = Inr (Big v)"
  by (simp add: readBigUInt64LE_def le_val_le_bytes)

lemma central_header_bytes_flat:
  "central_header_bytes fi =
     le_bytes 4 0x02014b50 @ le_bytes 2 (versionMadeby fi) @ le_bytes 2 (versionNeededToExtract fi)
     @ le_bytes 2 (generalPurposeBitFlag fi) @ le_bytes 2 (compressionMethod fi)
     @ le_bytes 2 (lastModFileTime fi) @ le_bytes 2 (lastModFileDate fi) @ le_bytes 4 (crc32 fi)
     @ le_bytes 4 (if sizes_overflow fi then 0xffffffff else compressedSize fi)
     @ le_bytes 4 (if sizes_overflow fi then 0xffffffff else uncompressedSize fi)
     @ le_bytes 2 (int (length (fileName fi)))
     @ le_bytes 2 (if sizes_overflow fi \<or> offset_overflow fi
                   then 4 + (if sizes_overflow fi then 16 else 0) + (if offset_overflow fi then 8 else 0)
                   else 0)
     @ le_bytes 2 (int (length (fileComment fi))) @ le_bytes 2 0
     @ le_bytes 2 (internalFileAttributes fi) @ le_bytes 4 (externalFileAttributes fi)
     @ le_bytes 4 (if offset_overflow fi then 0xffffffff else relativeOffsetOfLocalHeader fi)
     @ Buffer_from (fileName fi)
     @ (if sizes_overflow fi \<or> offset_overflow fi
        then le_bytes 2 1
             @ le_bytes 2 ((if sizes_overflow fi then 16 else 0) + (if offset_overflow fi then 8 else 0))
             @ (if sizes_overflow fi
                then le_bytes 8 (uncompressedSize fi) @ le_bytes 8 (compressedSize fi) else [])
             @ (if offset_overflow fi then le_bytes 8 (relativeOffsetOfLocalHeader fi) else [])
        else [])
     @ Buffer_from (fileComment fi)"
  by (simp add: central_header_bytes_def moved_fields_central header_fields_def enc_def
      extra_bytes_def numKeys_def Signatures_centralDirectoryHeader_def)

lemmas read_slot = readUIntLE_skip readBigUInt64LE_skip readUIntLE_hit readBigUInt64LE_hit

text \<open>
  C4. For a file info that fits the header (see \<open>entry_ok\<close>), \<open>createFileHeader\<close> in
  central-directory mode returns a header in which: if \<open>uncompressedSize\<close> or
  \<open>compressedSize\<close> is at least \<open>0xFFFFFFFF\<close>, both 32-bit size slots (bytes 20 and 24) hold
  \<open>0xFFFFFFFF\<close> and the ZIP64 extra field, which follows the file name, holds the true
  uncompressed size and then the true compressed size; if \<open>relativeOffsetOfLocalHeader\<close>
  is greater than \<open>0xFFFFFFFF\<close>, the offset slot (byte 42) holds \<open>0xFFFFFFFF\<close> and the extra
  field holds the true offset, after the sizes when they are there; the extra field has tag
  1 and exactly the values that moved, and the header's extra-field length (byte 30) is its
  size; a slot whose condition does not hold has the true value; and when no condition
  holds the extra-field length is 0 and the header is just the fixed part, the name and
  the comment.
\<close>

theorem central_header_overflow_policy:
  assumes "entry_ok fi"
  shows "\<exists>hdr. createFileHeader fi True = Inr hdr
    \<and> (0xffffffff \<le> uncompressedSize fi \<or> 0xffffffff \<le> compressedSize fi \<longrightarrow>
         readUIntLE 4 hdr 20 = Inr (Num 0xffffffff) \<and> readUIntLE 4 hdr 24 = Inr (Num 0xffffffff)
         \<and> readBigUInt64LE hdr (46 + length (fileName fi) + 4) = Inr (Big (uncompressedSize fi))
         \<and> readBigUInt64LE hdr (46 + length (fileName fi) + 12) = Inr (Big (compressedSize fi)))
    \<and> (0xffffffff < relativeOffsetOfLocalHeader fi \<longrightarrow>
         readUIntLE 4 hdr 42 = Inr (Num 0xffffffff)
         \<and> readBigUInt64LE hdr (46 + length (fileName fi) + 4
              + (if 0xffffffff \<le> uncompressedSize fi \<or> 0xffffffff \<le> compressedSize fi then 16 else 0))
             = Inr (Big (relativeOffsetOfLocalHeader fi)))
    \<and> ((0xffffffff \<le> uncompressedSize fi \<or> 0xffffffff \<le> compressedSize fi)
         \<or> 0xffffffff < relativeOffsetOfLocalHeader fi \<longrightarrow>
         readUIntLE 2 hdr (46 + length (fileName fi)) = Inr (Num 1)
         \<and> readUIntLE 2 hdr (46 + length (fileName fi) + 2)
             = Inr (Num ((if 0xffffffff \<le> uncompressedSize fi \<or> 0xffffffff \<le> compressedSize fi
                          then 16 else 0)
                         + (if 0xffffffff < relativeOffsetOfLocalHeader fi then 8 else 0)))
         \<and> readUIntLE 2 hdr 30
             = Inr (Num (4 + (if 0xffffffff \<le> uncompressedSize fi \<or> 0xffffffff \<le> compressedSize fi
                              then 16 else 0)
                         + (if 0xffffffff < relativeOffsetOfLocalHeader fi then 8 else 0)))
         \<and> int (length hdr) = 46 + int (length (fileName fi)) + 4
              + (if 0xffffffff \<le> uncompressedSize fi \<or> 0xffffffff \<le> compressedSize fi then 16 else 0)
              + (if 0xffffffff < relativeOffsetOfLocalHeader fi then 8 else 0)
              + int (length (fileComment fi)))
    \<and> (\<not> (0xffffffff \<le> uncompressedSize fi \<or> 0xffffffff \<le> compressedSize fi) \<longrightarrow>
         readUIntLE 4 hdr 20 = Inr (Num (compressedSize fi))
         \<and> readUIntLE 4 hdr 24 = Inr (Num (uncompressedSize fi)))
    \<and> (\<not> 0xffffffff < relativeOffsetOfLocalHeader fi \<longrightarrow>
         readUIntLE 4 hdr 42 = Inr (Num (relativeOffsetOfLocalHeader fi)))
    \<and> (\<not> (0xffffffff \<le> uncompressedSize fi \<or> 0xffffffff \<le> compressedSize fi)
         \<and> \<not> 0xffffffff < relativeOffsetOfLocalHeader fi \<longrightarrow>
         readUIntLE 2 hdr 30 = Inr (Num 0)
         \<and> length hdr = 46 + length (fileName fi) + length (fileComment fi))"
proof -
  let ?hdr = "central_header_bytes fi"
  let ?n = "length (fileName fi)"
  have rng: "0 \<le> uncompressedSize fi" "uncompressedSize fi < 2 ^ 64"
    "0 \<le> compressedSize fi" "compressedSize fi < 2 ^ 64"
    "0 \<le> relativeOffsetOfLocalHeader fi" "relativeOffsetOfLocalHeader fi < 2 ^ 64"
    using assms by (simp_all add: entry_ok_def)
  have so: "(0xffffffff \<le> uncompressedSize fi \<or> 0xffffffff \<le> compressedSize fi) = sizes_overflow fi"
    by (simp add: sizes_overflow_def)
  have oo: "(0xffffffff < relativeOffsetOfLocalHeader fi) = offset_overflow fi"
    by (simp add: offset_overflow_def)
  have small: "compressedSize fi < 2 ^ 32 \<and> uncompressedSize fi < 2 ^ 32" if "\<not> sizes_overflow fi"
    using that by (simp add: sizes_overflow_def)
  have near: "relativeOffsetOfLocalHeader fi < 2 ^ 32" if "\<not> offset_overflow fi"
    using that by (simp add: offset_overflow_def)
  have made: "createFileHeader fi True = Inr ?hdr"
    using assms by (rule createFileHeader_central)
  have sizes: "readUIntLE 4 ?hdr 20 = Inr (Num 0xffffffff) \<and> readUIntLE 4 ?hdr 24 = Inr (Num 0xffffffff)
         \<and> readBigUInt64LE ?hdr (46 + ?n + 4) = Inr (Big (uncompressedSize fi))
         \<and> readBigUInt64LE ?hdr (46 + ?n + 12) = Inr (Big (compressedSize fi))"
    if "sizes_overflow fi"
    using that rng by (simp add: central_header_bytes_flat read_slot)
  have offset: "readUIntLE 4 ?hdr 42 = Inr (Num 0xffffffff)
         \<and> readBigUInt64LE ?hdr (46 + ?n + 4 + (if sizes_overflow fi then 16 else 0))
             = Inr (Big (relativeOffsetOfLocalHeader fi))"
    if "offset_overflow fi"
    using that rng by (simp add: central_header_bytes_flat read_slot)
  have extra: "readUIntLE 2 ?hdr (46 + ?n) = Inr (Num 1)
         \<and> readUIntLE 2 ?hdr (46 + ?n + 2)
             = Inr (Num ((if sizes_overflow fi then 16 else 0) + (if offset_overflow fi then 8 else 0)))
         \<and> readUIntLE 2 ?hdr 30
             = Inr (Num (4 + (if sizes_overflow fi then 16 else 0) + (if offset_overflow fi then 8 else 0)))
         \<and> int (length ?hdr) = 46 + int ?n + 4
              + (if sizes_overflow fi then 16 else 0) + (if offset_overflow fi then 8 else 0)
              + int (length (fileComment fi))"
    if "sizes_overflow fi \<or> offset_overflow fi"
    using that by (auto simp: central_header_bytes_flat read_slot)
  have plain_sizes: "readUIntLE 4 ?hdr 20 = Inr (Num (compressedSize fi))
         \<and> readUIntLE 4 ?hdr 24 = Inr (Num (uncompressedSize fi))"
    if "\<not> sizes_overflow fi"
    using that rng small [OF that] by (simp add: central_header_bytes_flat read_slot)
  have plain_offset: "readUIntLE 4 ?hdr 42 = Inr (Num (relativeOffsetOfLocalHeader fi))"
    if "\<not> offset_overflow fi"
    using that rng near [OF that] by (simp add: central_header_bytes_flat read_slot)
  have none: "readUIntLE 2 ?hdr 30 = Inr (Num 0) \<and> length ?hdr = 46 + ?n + length (fileComment fi)"
    if "\<not> sizes_overflow fi \<and> \<not> offset_overflow fi"
    using that by (simp add: central_header_bytes_flat read_slot)
  show ?thesis
    unfolding so oo
    using made sizes offset extra plain_sizes plain_offset none
    by (intro exI [of _ ?hdr] conjI impI) blast+
qed

lemmas fileInfo_eval = createFileInfoObject_def js_or_def Flags_Descriptor_def Flags_UTF8_def
  CompressionMethods_deflate_def CompressionMethods_store_def entry_ok_def

theorem central_header_overflow_policy_witness:
  "entry_ok ((createFileInfoObject ''big.bin'' 0x100000010 [])
              \<lparr>crc32 := 0xCBF43926, compressedSize := 0x100000000, uncompressedSize := 0x300000000\<rparr>)
   \<and> entry_ok ((createFileInfoObject ''small.txt'' 98 [])
              \<lparr>crc32 := 0xCBF43926, compressedSize := 11, uncompressedSize := 9\<rparr>)
   \<and> (\<exists>hdr. createFileHeader ((createFileInfoObject ''big.bin'' 0x100000010 [])
              \<lparr>crc32 := 0xCBF43926, compressedSize := 0x100000000, uncompressedSize := 0x300000000\<rparr>) True
            = Inr hdr
         \<and> readUIntLE 4 hdr 20 = Inr (Num 0xffffffff) \<and> readUIntLE 4 hdr 24 = Inr (Num 0xffffffff)
         \<and> readUIntLE 4 hdr 42 = Inr (Num 0xffffffff)
         \<and> readUIntLE 2 hdr 30 = Inr (Num 28)
         \<and> readUIntLE 2 hdr 53 = Inr (Num 1) \<and> readUIntLE 2 hdr 55 = Inr (Num 24)
         \<and> readBigUInt64LE hdr 57 = Inr (Big 0x300000000)
         \<and> readBigUInt64LE hdr 65 = Inr (Big 0x100000000)
         \<and> readBigUInt64LE hdr 73 = Inr (Big 0x100000010)
         \<and> length hdr = 81)
   \<and> (\<exists>hdr. createFileHeader ((createFileInfoObject ''small.txt'' 98 [])
              \<lparr>crc32 := 0xCBF43926, compressedSize := 11, uncompressedSize := 9\<rparr>) True
            = Inr hdr
         \<and> readUIntLE 4 hdr 20 = Inr (Num 11) \<and> readUIntLE 4 hdr 24 = Inr (Num 9)
         \<and> readUIntLE 4 hdr 42 = Inr (Num 98)
         \<and> readUIntLE 2 hdr 30 = Inr (Num 0)
         \<and> length hdr = 55)"
proof -
  let ?big = "(createFileInfoObject ''big.bin'' 0x100000010 [])
              \<lparr>crc32 := 0xCBF43926, compressedSize := 0x100000000, uncompressedSize := 0x300000000\<rparr>"
  let ?small = "(createFileInfoObject ''small.txt'' 98 [])
              \<lparr>crc32 := 0xCBF43926, compressedSize := 11, uncompressedSize := 9\<rparr>"
  have h1: "entry_ok ?big"
    by (simp add: fileInfo_eval)
  have h2: "entry_ok ?small"
    by (simp add: fileInfo_eval)
  have a: "\<exists>hdr. createFileHeader ?big True = Inr hdr
         \<and> readUIntLE 4 hdr 20 = Inr (Num 0xffffffff) \<and> readUIntLE 4 hdr 24 = Inr (Num 0xffffffff)
         \<and> readUIntLE 4 hdr 42 = Inr (Num 0xffffffff)
         \<and> readUIntLE 2 hdr 30 = Inr (Num 28)
         \<and> readUIntLE 2 hdr 53 = Inr (Num 1) \<and> readUIntLE 2 hdr 55 = Inr (Num 24)
         \<and> readBigUInt64LE hdr 57 = Inr (Big 0x300000000)
         \<and> readBigUInt64LE hdr 65 = Inr (Big 0x100000000)
         \<and> readBigUInt64LE hdr 73 = Inr (Big 0x100000010)
         \<and> length hdr = 81"
    using central_header_overflow_policy [OF h1]
    by (simp add: createFileInfoObject_def) blast
  have b: "\<exists>hdr. createFileHeader ?small True = Inr hdr
         \<and> readUIntLE 4 hdr 20 = Inr (Num 11) \<and> readUIntLE 4 hdr 24 = Inr (Num 9)
         \<and> readUIntLE 4 hdr 42 = Inr (Num 98)
         \<and> readUIntLE 2 hdr 30 = Inr (Num 0)
         \<and> length hdr = 55"
    using central_header_overflow_policy [OF h2]
    by (simp add: createFileInfoObject_def)
  from h1 h2 a b show ?thesis
    by (intro conjI)
qed

text \<open>
  C3 does not hold of the code. An entry whose local header is at offset \<open>0xFFFFFFFF\<close>
  exactly is not moved to the ZIP64 extra field (the test is \<open>>\<close>), yet its 32-bit
  offset slot (byte 42) holds \<open>0xFFFFFFFF\<close>, the sentinel: the header has no extra field
  (extra-field length 0, and the header ends with the name).
\<close>

theorem central_header_offset_sentinel_without_extra_field:
  "\<exists>hdr. createFileHeader ((createFileInfoObject ''a.txt'' 0xffffffff [])
            \<lparr>crc32 := 0, compressedSize := 2\<rparr>) True = Inr hdr
     \<and> readUIntLE 4 hdr 42 = Inr (Num 0xffffffff)
     \<and> readUIntLE 2 hdr 30 = Inr (Num 0)
     \<and> length hdr = 46 + length ''a.txt''"
proof -
  let ?fi = "(createFileInfoObject ''a.txt'' 0xffffffff [])\<lparr>crc32 := 0, compressedSize := 2\<rparr>"
  have ok: "entry_ok ?fi"
    by (simp add: fileInfo_eval)
  have no: "\<not> sizes_overflow ?fi" "\<not> offset_overflow ?fi"
    by (simp_all add: sizes_overflow_def offset_overflow_def createFileInfoObject_def)
  have "readUIntLE 4 (central_header_bytes ?fi) 42 = Inr (Num 0xffffffff)
     \<and> readUIntLE 2 (central_header_bytes ?fi) 30 = Inr (Num 0)
     \<and> length (central_header_bytes ?fi) = 46 + length ''a.txt''"
    using no by (simp add: central_header_bytes_flat read_slot createFileInfoObject_def)
  with createFileHeader_central [OF ok] show ?thesis
    by blast
qed

lemmas record_eval = Structs_zip64EndOfCentralDirectoryRecord_def Structs_endOfCentralDirectoryRecord_def
  Structs_zip64EndOfCentralDirectoryLocator_def
  Signatures_zip64EndOfCentralDirectory_def Signatures_endOfCentralDirectory_def
  Signatures_zip64EndOfCentralDirectoryLocator_def
  createBufferForStruct_def byteSize_def Buffer_alloc_def valueToUse_def
  writeUIntLE_def writeBigUInt64LE_def put_bytes_def

lemma t2_transform_counter:
  "fold (t2_transform wrote_ok) cs (fi, st) = (fi', st') \<Longrightarrow>
   currentPosInWriteStream st' - int (length (writeStream st'))
     = currentPosInWriteStream st - int (length (writeStream st))"
proof (induction cs arbitrary: fi st)
  case Nil
  then show ?case by simp
next
  case (Cons c cs)
  obtain fi1 st1 where step: "t2_transform wrote_ok c (fi, st) = (fi1, st1)"
    by (cases "t2_transform wrote_ok c (fi, st)")
  then have "currentPosInWriteStream st1 - int (length (writeStream st1))
      = currentPosInWriteStream st - int (length (writeStream st))"
    by (auto simp: t2_transform_def stream_write_def Let_def)
  moreover have "fold (t2_transform wrote_ok) cs (fi1, st1) = (fi', st')"
    using Cons.prems by (simp add: step)
  ultimately show ?case
    using Cons.IH by simp
qed

text \<open>
  In \<open>addFileToZip\<close> every write is followed by adding the length of what was written:
  the counter stays equal to the number of bytes handed to the sink.
\<close>

lemma addFileToZip_counter:
  assumes inv: "currentPosInWriteStream state = int (length (writeStream state))"
    and run: "addFileToZip wrote_ok deflate state name chunks = Inr state'"
  shows "currentPosInWriteStream state' = int (length (writeStream state'))"
proof -
  let ?fi0 = "createFileInfoObject name (currentPosInWriteStream state) []"
  obtain lfh where lfh: "createFileHeader ?fi0 False = Inr lfh"
    using run by (cases "createFileHeader ?fi0 False") (simp_all add: addFileToZip_def Let_def)
  let ?st1 = "(fst (stream_write wrote_ok lfh state))
      \<lparr>currentPosInWriteStream := currentPosInWriteStream (fst (stream_write wrote_ok lfh state))
          + int (length lfh)\<rparr>"
  have inv1: "currentPosInWriteStream ?st1 = int (length (writeStream ?st1))"
    using inv by (simp add: stream_write_def Let_def)
  obtain fi2 st2 where t2: "fold (t2_transform wrote_ok) (deflate chunks)
      (fold t1_transform chunks ?fi0, ?st1) = (fi2, st2)"
    by (cases "fold (t2_transform wrote_ok) (deflate chunks) (fold t1_transform chunks ?fi0, ?st1)")
  have inv2: "currentPosInWriteStream st2 = int (length (writeStream st2))"
    using t2_transform_counter [OF t2] inv1 by simp
  let ?fi3 = "fi2\<lparr>crc32 := js_ushr (js_xor (crc32 fi2) 0xffffffff) 0\<rparr>"
  obtain dd where dd: "createZIP64DataDescriptor ?fi3 = Inr dd"
    using run lfh t2
    by (cases "createZIP64DataDescriptor ?fi3") (simp_all add: addFileToZip_def Let_def)
  have "state' = ((fst (stream_write wrote_ok dd st2))
      \<lparr>currentPosInWriteStream := currentPosInWriteStream (fst (stream_write wrote_ok dd st2))
          + int (length dd)\<rparr>)\<lparr>fileInfoList := fileInfoList (fst (stream_write wrote_ok dd st2)) @ [?fi3]\<rparr>"
    using run lfh t2 dd by (simp add: addFileToZip_def Let_def)
  then show ?thesis
    using inv2 by (simp add: stream_write_def Let_def)
qed

text \<open>
  C5 does not hold of the code. For the archive with no files, \<open>endZip\<close> hands
  56 + 20 + 22 = 98 bytes to the sink, and the counter ends between 0 and 3: after each of
  the last three writes it grows by the boolean that \<open>write\<close> returns, not by the
  length of the record. This holds whatever \<open>write\<close> returns.
\<close>

theorem endZip_counter_empty_archive:
  "\<exists>state. endZip wrote_ok startZip = Inr state \<and> length (writeStream state) = 98
     \<and> 0 \<le> currentPosInWriteStream state \<and> currentPosInWriteStream state \<le> 3"
  by (simp add: endZip_def startZip_def createZIP64EndOfCentralDirectoryRecord_def
      createZIP64EndOfCentralDirectoryLocator_def createEndOfCentralDirectoryRecord_def
      record_eval stream_write_def Number_of_bool_def Let_def)

section \<open>Archive Locator: proofs\<close>

lemma indexOf_from_None:
  "v \<noteq> [] \<Longrightarrow> indexOf_from xs v i = None \<longleftrightarrow> \<not> occurs v xs"
proof (induction xs arbitrary: i)
  case Nil
  then show ?case by (auto simp: occurs_def)
next
  case (Cons b bs)
  have "occurs v (b # bs) \<longleftrightarrow> take (length v) (b # bs) = v \<or> occurs v bs"
  proof
    assume "occurs v (b # bs)"
    then obtain k where k: "take (length v) (drop k (b # bs)) = v"
      by (auto simp: occurs_def)
    show "take (length v) (b # bs) = v \<or> occurs v bs"
    proof (cases k)
      case 0
      with k show ?thesis by simp
    next
      case (Suc j)
      with k have "take (length v) (drop j bs) = v" by simp
      then show ?thesis by (auto simp: occurs_def)
    qed
  next
    assume "take (length v) (b # bs) = v \<or> occurs v bs"
    then show "occurs v (b # bs)"
    proof
      assume "take (length v) (b # bs) = v"
      then have "take (length v) (drop 0 (b # bs)) = v" by simp
      then show ?thesis unfolding occurs_def by blast
    next
      assume "occurs v bs"
      then obtain k where "take (length v) (drop k bs) = v"
        by (auto simp: occurs_def)
      then have "take (length v) (drop (Suc k) (b # bs)) = v" by simp
      then show ?thesis unfolding occurs_def by blast
    qed
  qed
  then show ?case
    using Cons.IH [OF Cons.prems] by simp
qed

lemma Buffer_indexOf_None: "v \<noteq> [] \<Longrightarrow> Buffer_indexOf xs v = None \<longleftrightarrow> \<not> occurs v xs"
  by (simp add: Buffer_indexOf_def indexOf_from_None)

lemma take_eq_lengthD: "take j zs = v \<Longrightarrow> length v \<le> j \<and> length v \<le> length zs"
  by auto

lemma nth_take_drop: "i < L \<Longrightarrow> k + i < length xs \<Longrightarrow> take L (drop k xs) ! i = xs ! (k + i)"
  by simp

lemma occurs_slice:
  assumes "occurs v (take n (drop p file))" and "v \<noteq> []"
  shows "occurs v file"
proof -
  obtain k where k: "take (length v) (drop k (take n (drop p file))) = v"
    using assms by (auto simp: occurs_def)
  have "drop k (take n (drop p file)) = take (n - k) (drop (p + k) file)"
    by (simp add: drop_take add.commute)
  then have eq: "v = take (min (length v) (n - k)) (drop (p + k) file)"
    using k by simp
  then have "length v \<le> min (length v) (n - k)"
    using take_eq_lengthD [of "min (length v) (n - k)" "drop (p + k) file" v] by simp
  then have "min (length v) (n - k) = length v"
    by simp
  with eq have "take (length v) (drop (p + k) file) = v"
    by simp
  then show ?thesis
    unfolding occurs_def by blast
qed

lemma occurs_padded:
  assumes occ: "occurs v (chunk @ replicate m 0)" and ne: "v \<noteq> []" and last: "last v \<noteq> 0"
  shows "occurs v chunk"
proof -
  let ?xs = "chunk @ replicate m 0"
  obtain k where k: "take (length v) (drop k ?xs) = v"
    using occ by (auto simp: occurs_def)
  have len: "length v \<le> length ?xs - k"
    using take_eq_lengthD [OF k] by simp
  have pos: "0 < length v"
    using ne by simp
  have len2: "k + (length v - 1) < length ?xs"
    using len pos by arith
  have "last v = v ! (length v - 1)"
    using ne by (simp add: last_conv_nth)
  also have "\<dots> = take (length v) (drop k ?xs) ! (length v - 1)"
    by (simp only: k)
  also have "\<dots> = ?xs ! (k + (length v - 1))"
    using pos len2 by (intro nth_take_drop) arith+
  finally have lastv: "last v = ?xs ! (k + (length v - 1))" .
  have "k + (length v - 1) < length chunk"
  proof (rule ccontr)
    assume "\<not> k + (length v - 1) < length chunk"
    then have ge: "length chunk \<le> k + (length v - 1)"
      by simp
    have "k + (length v - 1) - length chunk < m"
      using len2 ge by simp
    then have "?xs ! (k + (length v - 1)) = 0"
      using ge by (simp add: nth_append)
    with lastv last show False
      by simp
  qed
  then have "k + length v \<le> length chunk"
    using pos by simp
  then have "take (length v) (drop k ?xs) = take (length v) (drop k chunk)"
    by simp
  with k show ?thesis
    unfolding occurs_def by metis
qed

lemma le_bytes_4:
  "le_bytes 4 v = [word_of_int v, word_of_int (v div 256), word_of_int (v div 256 div 256),
                   word_of_int (v div 256 div 256 div 256)]"
proof -
  have "(4::nat) = Suc (Suc (Suc (Suc 0)))"
    by simp
  then show ?thesis
    by (simp only: le_bytes.simps)
qed

lemma signatureBuffer_bytes: "signatureBuffer = [0x50, 0x4B, 0x06, 0x07]"
  by (simp add: signatureBuffer_def Signatures_zip64EndOfCentralDirectoryLocator_def le_bytes_4)

lemma signatureBuffer_facts:
  "signatureBuffer \<noteq> []" "last signatureBuffer \<noteq> 0" "length signatureBuffer = 4"
  by (simp_all add: signatureBuffer_bytes)

lemma scan_step:
  assumes inv: "scan_inv file buffer negativeOffset"
  defines "position \<equiv> nat (max 0 (int (length file) - int searchSize - negativeOffset))"
  defines "chunk \<equiv> take searchSize (drop position file)"
  shows "fd_read file buffer searchSize position
           = (chunk @ replicate (searchSize - length chunk) 0, length chunk)"
    and "scan_inv file (chunk @ replicate (searchSize - length chunk) 0)
           (negativeOffset + (int searchSize - int (length signatureBuffer)))"
proof -
  have neg: "0 \<le> negativeOffset" and len: "length buffer = searchSize"
    and rest: "drop (min (length file) searchSize) buffer
          = replicate (searchSize - min (length file) searchSize) 0"
    using inv by (simp_all add: scan_inv_def)
  have clen: "length chunk = min (length file) searchSize"
    using neg by (auto simp: chunk_def position_def min_def)
  show "fd_read file buffer searchSize position
           = (chunk @ replicate (searchSize - length chunk) 0, length chunk)"
    by (simp add: fd_read_def Let_def chunk_def [symmetric] clen rest)
  show "scan_inv file (chunk @ replicate (searchSize - length chunk) 0)
           (negativeOffset + (int searchSize - int (length signatureBuffer)))"
    using neg by (simp add: scan_inv_def clen signatureBuffer_facts searchSize_def)
qed

lemma scan_no_signature:
  assumes "\<not> occurs signatureBuffer file"
  shows "\<not> occurs signatureBuffer (take n (drop p file) @ replicate m 0)"
  using assms occurs_padded [OF _ signatureBuffer_facts(1,2)]
    occurs_slice [OF _ signatureBuffer_facts(1)]
  by blast

lemma findZip64Locator_loop_never_returns:
  assumes none: "\<not> occurs signatureBuffer file"
    and inv: "scan_inv file buffer negativeOffset"
  shows "findZip64Locator_loop file buffer negativeOffset = None"
proof (cases "findZip64Locator_loop file buffer negativeOffset")
  case None
  then show ?thesis .
next
  case (Some y)
  have "\<not> occurs signatureBuffer file \<longrightarrow> scan_inv file buffer negativeOffset \<longrightarrow> False"
  proof (rule findZip64Locator_loop.raw_induct
      [where P = "\<lambda>f b n y. \<not> occurs signatureBuffer f \<longrightarrow> scan_inv f b n \<longrightarrow> False", OF _ Some])
    fix loop :: "byte list \<Rightarrow> byte list \<Rightarrow> int \<Rightarrow> (byte list \<times> nat \<times> int) option"
      and fl b :: "byte list" and n :: int and r :: "byte list \<times> nat \<times> int"
    assume IH: "\<And>f b n y. loop f b n = Some y \<Longrightarrow>
        \<not> occurs signatureBuffer f \<longrightarrow> scan_inv f b n \<longrightarrow> False"
    assume body: "(let position = max 0 (int (length fl) - int searchSize - n);
          read = fd_read fl b searchSize (nat position);
          lastBytesRead = snd read
      in case Buffer_indexOf (fst read) signatureBuffer of
           None \<Rightarrow> loop fl (fst read) (n + (int searchSize - int (length signatureBuffer)))
         | Some bufferOffset \<Rightarrow> Some (fst read, lastBytesRead, position + int bufferOffset))
        = Some r"
    show "\<not> occurs signatureBuffer fl \<longrightarrow> scan_inv fl b n \<longrightarrow> False"
    proof (intro impI)
      assume none: "\<not> occurs signatureBuffer fl" and inv: "scan_inv fl b n"
      let ?position = "nat (max 0 (int (length fl) - int searchSize - n))"
      let ?chunk = "take searchSize (drop ?position fl)"
      let ?buffer = "?chunk @ replicate (searchSize - length ?chunk) 0"
      let ?next = "n + (int searchSize - int (length signatureBuffer))"
      have rd: "fd_read fl b searchSize ?position = (?buffer, length ?chunk)"
        and inv': "scan_inv fl ?buffer ?next"
        using scan_step [OF inv] by simp_all
      have "Buffer_indexOf ?buffer signatureBuffer = None"
        using scan_no_signature [OF none]
        by (simp add: Buffer_indexOf_None signatureBuffer_facts)
      then have "loop fl ?buffer ?next = Some r"
        using body by (simp add: Let_def rd)
      then show False
        using IH none inv' by blast
    qed
  qed
  with none inv show ?thesis
    by blast
qed

lemma scan_inv_start: "scan_inv file (Buffer_alloc searchSize) 0"
  by (simp add: scan_inv_def Buffer_alloc_def)

lemma indexOf_from_zeros:
  "v \<noteq> [] \<Longrightarrow> hd v \<noteq> 0 \<Longrightarrow>
   indexOf_from (replicate n 0 @ xs) v i = indexOf_from xs v (i + n)"
proof (induction n arbitrary: i)
  case 0
  show ?case by simp
next
  case (Suc n)
  have "take (length v) (0 # replicate n 0 @ xs) \<noteq> v"
    using Suc.prems by (cases v) auto
  then show ?case
    using Suc.IH [OF Suc.prems, of "Suc i"] by simp
qed

lemma indexOf_from_only_zeros:
  "v \<noteq> [] \<Longrightarrow> hd v \<noteq> 0 \<Longrightarrow> indexOf_from (replicate n 0) v i = None"
  using indexOf_from_zeros [of v n "[]" i] by simp

lemma findZip64Locator_large:
  assumes big: "2 * searchSize \<le> length file"
    and found: "Buffer_indexOf (drop (length file - searchSize) file) signatureBuffer = Some bufferOffset"
  shows "findZip64Locator defs file = Some (Inr None)"
proof -
  let ?position = "length file - searchSize"
  have pos: "max 0 (int (length file) - int searchSize) = int ?position"
    using big by simp
  have rd: "fd_read file (Buffer_alloc searchSize) searchSize ?position = (drop ?position file, searchSize)"
    using big by (simp add: fd_read_def Buffer_alloc_def Let_def)
  have "findZip64Locator_loop file (Buffer_alloc searchSize) 0
      = Some (drop ?position file, searchSize, int ?position + int bufferOffset)"
    by (subst findZip64Locator_loop.simps) (simp add: pos rd found Let_def)
  moreover have "int searchSize - (int ?position + int bufferOffset) < 20"
    using big by simp
  ultimately show ?thesis
    by (simp add: findZip64Locator_def Let_def)
qed

text \<open>
  C1 does not hold of the code. For every file of at least 4096 bytes whose last 2048
  bytes contain the locator's signature, with any record definitions, \<open>findZip64Locator\<close>
  returns \<open>null\<close> and \<open>readZip\<close> ends with a TypeError: the offset of the signature in
  the file is used as if it were an offset in the buffer.
\<close>

theorem readZip_large_archive_fails:
  "2 * searchSize \<le> length file \<Longrightarrow>
   Buffer_indexOf (drop (length file - searchSize) file) signatureBuffer = Some bufferOffset \<Longrightarrow>
   findZip64Locator defs file = Some (Inr None) \<and> readZip defs file = Some (Inl TypeError)"
  by (simp add: findZip64Locator_large readZip_def)

lemma length_hand_built: "length hand_built_end_record = 56" "length hand_built_locator = 20"
  by (simp_all add: hand_built_end_record_def hand_built_locator_def)

lemma hand_built_locator_found:
  "Buffer_indexOf (drop (length hand_built_archive - searchSize) hand_built_archive) signatureBuffer
     = Some 2028"
proof -
  have "drop (length hand_built_archive - searchSize) hand_built_archive
      = replicate 2028 0 @ hand_built_locator"
    by (simp add: hand_built_archive_def length_hand_built searchSize_def)
  moreover have "indexOf_from hand_built_locator signatureBuffer 2028 = Some 2028"
    by (simp add: hand_built_locator_def signatureBuffer_bytes le_bytes_4)
  ultimately show ?thesis
    using indexOf_from_zeros [of signatureBuffer 2028 hand_built_locator 0]
    by (simp add: Buffer_indexOf_def signatureBuffer_bytes)
qed

theorem readZip_large_archive_fails_witness:
  "2 * searchSize \<le> length hand_built_archive
   \<and> Buffer_indexOf (drop (length hand_built_archive - searchSize) hand_built_archive)
        signatureBuffer = Some 2028
   \<and> findZip64Locator Structs_as_Definitions hand_built_archive = Some (Inr None)
   \<and> readZip Structs_as_Definitions hand_built_archive = Some (Inl TypeError)"
proof -
  have h1: "2 * searchSize \<le> length hand_built_archive"
    by (simp add: hand_built_archive_def length_hand_built searchSize_def)
  from h1 hand_built_locator_found
    readZip_large_archive_fails [OF h1 hand_built_locator_found, of Structs_as_Definitions]
  show ?thesis
    by (intro conjI) simp_all
qed

text \<open>
  C6 does not hold of the code. For every file in which the locator's signature does not
  occur, the loop of \<open>findZip64Locator\<close> never ends: the function does not return, and
  reports nothing.
\<close>

theorem findZip64Locator_without_signature_never_returns:
  "Buffer_indexOf file signatureBuffer = None \<Longrightarrow> findZip64Locator defs file = None"
proof -
  assume "Buffer_indexOf file signatureBuffer = None"
  then have "\<not> occurs signatureBuffer file"
    by (simp add: Buffer_indexOf_None signatureBuffer_facts)
  then have "findZip64Locator_loop file (Buffer_alloc searchSize) 0 = None"
    using scan_inv_start by (rule findZip64Locator_loop_never_returns)
  then show ?thesis
    by (simp add: findZip64Locator_def)
qed

theorem findZip64Locator_without_signature_never_returns_witness:
  "Buffer_indexOf classic_empty_archive signatureBuffer = None
   \<and> findZip64Locator Structs_as_Definitions classic_empty_archive = None"
proof -
  have h: "Buffer_indexOf classic_empty_archive signatureBuffer = None"
    by (simp add: classic_empty_archive_def Buffer_indexOf_def signatureBuffer_bytes le_bytes_4
        indexOf_from_only_zeros)
  from h findZip64Locator_without_signature_never_returns [OF h, of Structs_as_Definitions]
  show ?thesis
    by (intro conjI)
qed

lemma le_bytes_2: "le_bytes 2 v = [word_of_int v, word_of_int (v div 256)]"
proof -
  have "(2::nat) = Suc (Suc 0)"
    by simp
  then show ?thesis
    by (simp only: le_bytes.simps)
qed

lemma le_bytes_8:
  "le_bytes 8 v = le_bytes 4 v @ le_bytes 4 (v div 256 div 256 div 256 div 256)"
proof -
  have "(8::nat) = Suc (Suc (Suc (Suc (Suc (Suc (Suc (Suc 0)))))))"
    and "(4::nat) = Suc (Suc (Suc (Suc 0)))"
    by simp_all
  then show ?thesis
    by (simp only: le_bytes.simps append_Cons append_Nil)
qed

lemma findZip64Locator_loop_small:
  assumes small: "length file \<le> searchSize"
    and found: "Buffer_indexOf (file @ replicate (searchSize - length file) 0) signatureBuffer
                  = Some bufferOffset"
  shows "findZip64Locator_loop file (Buffer_alloc searchSize) 0
           = Some (file @ replicate (searchSize - length file) 0, length file, int bufferOffset)"
proof -
  have pos: "max 0 (int (length file) - int searchSize) = 0"
    using small by simp
  have rd: "fd_read file (Buffer_alloc searchSize) searchSize 0
      = (file @ replicate (searchSize - length file) 0, length file)"
    using small by (simp add: fd_read_def Buffer_alloc_def Let_def)
  show ?thesis
    by (subst findZip64Locator_loop.simps) (simp add: pos rd found Let_def)
qed

text \<open>
  The same two records with nothing between them, a file of 76 bytes: the locator is
  found and decoded, and then the constructor of \<open>Struct\<close> throws on the end record's
  definition of \<open>Structs\<close>, which has \<open>numEntries\<close> twice.
\<close>

lemma readZip_small_archive_fails:
  "readZip Structs_as_Definitions (hand_built_end_record @ hand_built_locator) = Some (Inl TypeError)"
proof -
  let ?file = "hand_built_end_record @ hand_built_locator"
  let ?buffer = "?file @ replicate 1972 0"
  have idx: "Buffer_indexOf ?buffer signatureBuffer = Some 56"
    by (simp add: Buffer_indexOf_def hand_built_end_record_def hand_built_locator_def
        signatureBuffer_bytes le_bytes_2 le_bytes_4 le_bytes_8)
  have loop: "findZip64Locator_loop ?file (Buffer_alloc searchSize) 0 = Some (?buffer, 76, 56)"
    using findZip64Locator_loop_small [of ?file 56] idx
    by (simp add: length_hand_built searchSize_def)
  have dist: "distinct (map fst Structs_zip64EndOfCentralDirectoryLocator)"
    by (simp add: Structs_zip64EndOfCentralDirectoryLocator_def)
  let ?s0 = "\<lparr>entryOrder = map fst Structs_zip64EndOfCentralDirectoryLocator,
             entries = initial_entries Structs_zip64EndOfCentralDirectoryLocator Map.empty\<rparr>"
  have "56 + sum_list (map (\<lambda>(name, type, value). TypeSizes type) (entries ?s0)) \<le> length ?buffer"
    by (simp add: size_initial_entries byteSize_def Structs_zip64EndOfCentralDirectoryLocator_def
        length_hand_built)
  then obtain s' n where "readFromBuffer_loop (entries ?s0) ?s0 ?buffer 56 = Inr (s', n)"
    using readFromBuffer_loop_total [of 56 "entries ?s0" ?buffer ?s0] by blast
  then have "FromBuffer Structs_zip64EndOfCentralDirectoryLocator ?buffer 56 = Inr s'"
    by (simp add: FromBuffer_def Struct_new_eq dist readFromBuffer_def)
  then have "findZip64Locator Structs_as_Definitions ?file = Some (Inr (Some s'))"
    by (simp add: findZip64Locator_def loop Let_def Structs_as_Definitions_def)
  moreover have "Struct_new Structs_zip64EndOfCentralDirectoryRecord Map.empty = Inl TypeError"
    by (simp add: Struct_new_eq Structs_zip64EndOfCentralDirectoryRecord_def)
  ultimately show ?thesis
    by (simp add: readZip_def Structs_as_Definitions_def)
qed


end
